theory Spec2Isabelle
  imports Main
begin

section \<open>Python string primitives\<close>

text \<open>
  Python strings are modelled as HOL strings whose characters stand for the code points
  U+0000 to U+00FF.  The functions below follow \<^verbatim>\<open>str.isspace\<close>, \<^verbatim>\<open>str.lower\<close>,
  \<^verbatim>\<open>str.strip\<close>, the operator \<^verbatim>\<open>in\<close>, \<^verbatim>\<open>str.split\<close> and \<^verbatim>\<open>str.join\<close> on that range.
\<close>

definition isspace :: "char \<Rightarrow> bool" where
  \<comment> \<open>\<^verbatim>\<open>str.isspace\<close>, which is also the class \<^verbatim>\<open>\s\<close> of \<^verbatim>\<open>re\<close> on str patterns\<close>
  "isspace c = (of_char c \<in> {9, 10, 11, 12, 13, 28, 29, 30, 31, 32, 133, 160 :: nat})"

definition isdigit :: "char \<Rightarrow> bool" where
  \<comment> \<open>the class \<^verbatim>\<open>\d\<close> of \<^verbatim>\<open>re\<close>\<close>
  "isdigit c = (48 \<le> (of_char c :: nat) \<and> (of_char c :: nat) \<le> 57)"

definition lower_char :: "char \<Rightarrow> char" where
  "lower_char c =
     (let n = of_char c :: nat
      in if (65 \<le> n \<and> n \<le> 90) \<or> (192 \<le> n \<and> n \<le> 222 \<and> n \<noteq> 215)
         then char_of (n + 32) else c)"

definition lower :: "string \<Rightarrow> string" where
  "lower s = map lower_char s"

definition lstrip :: "string \<Rightarrow> string" where
  "lstrip s = dropWhile isspace s"

definition rstrip :: "string \<Rightarrow> string" where
  "rstrip s = rev (dropWhile isspace (rev s))"

definition strip :: "string \<Rightarrow> string" where
  "strip s = rstrip (lstrip s)"

fun startswith :: "'a list \<Rightarrow> 'a list \<Rightarrow> bool" where
  \<comment> \<open>\<^verbatim>\<open>s.startswith(pat)\<close>, with the pattern first\<close>
  "startswith [] s = True"
| "startswith (p # ps) [] = False"
| "startswith (p # ps) (c # cs) = (p = c \<and> startswith ps cs)"

fun contains :: "'a list \<Rightarrow> 'a list \<Rightarrow> bool" where
  \<comment> \<open>\<^verbatim>\<open>pat in s\<close>\<close>
  "contains pat [] = (pat = [])"
| "contains pat (c # cs) = (startswith pat (c # cs) \<or> contains pat cs)"

definition occurs_in :: "'a list \<Rightarrow> 'a list \<Rightarrow> bool" where
  \<comment> \<open>substring containment as a property: some text before, the pattern, some text after\<close>
  "occurs_in pat s = (\<exists>a b. s = a @ pat @ b)"

abbreviation NL :: char where
  "NL \<equiv> CHR 0x0A"

function split_from :: "string \<Rightarrow> string \<Rightarrow> string \<Rightarrow> string list" where
  "split_from sep cur [] = [cur]"
| "split_from sep cur (c # cs) =
     (if sep \<noteq> [] \<and> startswith sep (c # cs)
      then cur # split_from sep [] (drop (length sep) (c # cs))
      else split_from sep (cur @ [c]) cs)"
  by pat_completeness auto
termination
  by (relation "measure (\<lambda>(sep, cur, s). length s)") auto

definition split :: "string \<Rightarrow> string \<Rightarrow> string list" where
  \<comment> \<open>\<^verbatim>\<open>s.split(sep)\<close> with the separator first.  Every call site passes a non-empty
      literal; for an empty separator Python raises ValueError and the model cuts nowhere.\<close>
  "split sep s = split_from sep [] s"

section \<open>Exceptions\<close>

text \<open>
  An exception is a value.  \<open>HTTPError r\<close> carries \<^verbatim>\<open>exception.response\<close>: nothing, or the
  response, of which the model keeps the status code.  \<open>OtherError\<close> stands for whatever
  else an external service (the statistics API, the mail API, the document store) raises.
\<close>

datatype error =
  AttributeError | IndexError | UnicodeEncodeError | ConnectionError | Timeout
  | HTTPError "nat option" | OtherError string

section \<open>dingers/main.py: home-run highlights\<close>

record highlight =
  title :: string
  description :: string
  video_url :: string
  game_id :: int

definition highlight_of_entry :: "int \<Rightarrow> string \<Rightarrow> highlight option" where
  \<comment> \<open>the body of the loop of \<^verbatim>\<open>extract_hr_highlights\<close>: \<open>Some\<close> is an append, \<open>None\<close> a
      \<^verbatim>\<open>continue\<close> or a highlight that is not a home run\<close>
  "highlight_of_entry gid entry =
     (if entry = [] then None
      else let parts = split [NL] entry
           in if length parts < 3 then None
              else let t = parts ! 0; d = parts ! 1; v = parts ! 2;
                       title_lower = lower t; description_lower = lower d
                   in if contains ''homer'' title_lower
                         \<or> contains ''home run'' title_lower
                         \<or> contains ''homer'' description_lower
                         \<or> contains ''home run'' description_lower
                      then Some \<lparr>title = t, description = d, video_url = v, game_id = gid\<rparr>
                      else None)"

fun hr_loop :: "int \<Rightarrow> string list \<Rightarrow> highlight list \<Rightarrow> highlight list" where
  "hr_loop gid [] highlights = highlights"
| "hr_loop gid (entry # rest) highlights =
     (case highlight_of_entry gid entry of
        None \<Rightarrow> hr_loop gid rest highlights
      | Some h \<Rightarrow> hr_loop gid rest (highlights @ [h]))"

definition extract_hr_highlights :: "int \<Rightarrow> error + string \<Rightarrow> highlight list" where
  \<comment> \<open>the second argument is what \<^verbatim>\<open>statsapi.game_highlights(game_id)\<close> gives: the feed, or
      an exception, which the \<^verbatim>\<open>except\<close> clause turns into the empty list\<close>
  "extract_hr_highlights gid feed =
     (case feed of
        Inl e \<Rightarrow> []
      | Inr highlights_text \<Rightarrow> hr_loop gid (split [NL, NL] highlights_text) [])"

section \<open>dingers/main.py: title cleaning\<close>

definition is_timestamp :: "string \<Rightarrow> bool" where
  \<comment> \<open>the text matches \<^verbatim>\<open>\(\d{2}:\d{2}:\d{2}\)\<close> as a whole\<close>
  "is_timestamp t =
     (length t = 10 \<and> t ! 0 = CHR ''('' \<and> isdigit (t ! 1) \<and> isdigit (t ! 2)
      \<and> t ! 3 = CHR '':'' \<and> isdigit (t ! 4) \<and> isdigit (t ! 5)
      \<and> t ! 6 = CHR '':'' \<and> isdigit (t ! 7) \<and> isdigit (t ! 8) \<and> t ! 9 = CHR '')'')"

definition at_end :: "string \<Rightarrow> bool" where
  \<comment> \<open>\<^verbatim>\<open>$\<close> without MULTILINE: at the end of the text, or before a newline that ends it\<close>
  "at_end r = (r = [] \<or> r = [NL])"

definition timestamp_tail :: "string \<Rightarrow> bool" where
  \<comment> \<open>\<^verbatim>\<open>\s*\(\d{2}:\d{2}:\d{2}\)\s*$\<close> matches at the start of the text: both \<^verbatim>\<open>\s*\<close> are
      greedy, and giving back whitespace cannot help either of them\<close>
  "timestamp_tail s =
     (let r = dropWhile isspace s
      in is_timestamp (take 10 r) \<and> at_end (dropWhile isspace (drop 10 r)))"

fun sub_timestamp :: "string \<Rightarrow> string" where
  \<comment> \<open>\<^verbatim>\<open>re.sub(r"\s*\(\d{2}:\d{2}:\d{2}\)\s*$", "", s)\<close>: the leftmost match runs to the end
      of the text and is replaced by nothing\<close>
  "sub_timestamp [] = []"
| "sub_timestamp (c # cs) = (if timestamp_tail (c # cs) then [] else c # sub_timestamp cs)"

definition clean_title :: "string \<Rightarrow> string" where
  "clean_title t = strip (sub_timestamp t)"

definition ends_in_timestamp :: "string \<Rightarrow> bool" where
  \<comment> \<open>the specification's "ends in a timestamp suffix", read as widely as the pattern
      allows: after the trailing whitespace, the last ten characters are \<^verbatim>\<open>(HH:MM:SS)\<close>\<close>
  "ends_in_timestamp t =
     (let r = rstrip t in 10 \<le> length r \<and> is_timestamp (drop (length r - 10) r))"

section \<open>dingers/main.py: posting with retry, and the poll cycle\<close>

datatype http_outcome = Responded nat | ConnectionFailed | TimedOut

datatype post_return = ReturnedNone | ReturnedFalse

record dedup_record =
  rec_video_url :: string
  rec_title :: string
  rec_description :: string

record world =
  store :: "(string \<times> string) \<rightharpoonup> dedup_record"
  requests :: "string list"
  waits :: nat

record env =
  webhook :: "nat \<Rightarrow> http_outcome"
  sha256_hex :: "string \<Rightarrow> string"

text \<open>
  \<open>world\<close> is what the poll cycle changes: the dedup documents, keyed by date and document
  id (the two timestamps of a document are left out), the bodies of the webhook requests
  made so far, and the number of 500 ms waits.  \<open>env\<close> is what it is given: the outcome of
  the n-th webhook request and the hash function.  The store is taken to answer every call.
\<close>

definition response_bool :: "nat \<Rightarrow> bool" where
  \<comment> \<open>the truth value of a \<^verbatim>\<open>requests.Response\<close>: its \<^verbatim>\<open>ok\<close>, false for a status from 400 to 599\<close>
  "response_bool status = (\<not> (400 \<le> status \<and> status < 600))"

definition raise_for_status :: "nat \<Rightarrow> error + unit" where
  "raise_for_status status =
     (if 400 \<le> status \<and> status < 600 then Inl (HTTPError (Some status)) else Inr ())"

definition should_retry_http_error :: "error \<Rightarrow> bool" where
  "should_retry_http_error exception =
     (case exception of
        HTTPError response \<Rightarrow>
          (let status_code =
                 (case response of
                    None \<Rightarrow> None
                  | Some status \<Rightarrow> if response_bool status then Some status else None)
           in status_code \<in> {Some 429, Some 500, Some 502, Some 503, Some 504})
      | _ \<Rightarrow> False)"

definition retry_predicate :: "error \<Rightarrow> bool" where
  "retry_predicate e = (e = ConnectionError \<or> e = Timeout \<or> should_retry_http_error e)"

definition COMET :: string where
  \<comment> \<open>the code points U+2604 U+FE0F, beyond the model's range, as their UTF-8 bytes\<close>
  "COMET = [CHR 0xE2, CHR 0x98, CHR 0x84, CHR 0xEF, CHR 0xB8, CHR 0x8F]"

definition post_body :: "string option \<Rightarrow> highlight \<Rightarrow> env \<Rightarrow> world \<Rightarrow> (error + post_return) \<times> world" where
  \<comment> \<open>one run of the body of \<^verbatim>\<open>post_to_discord\<close>\<close>
  "post_body url h e w =
     (if url = None \<or> url = Some [] then (Inr ReturnedFalse, w)
      else let content = COMET @ '' **'' @ clean_title (title h) @ ''**'' @ [NL]
                         @ description h @ [NL] @ ''[Video]('' @ video_url h @ '')'';
               w' = w\<lparr>requests := requests w @ [content]\<rparr>
           in case webhook e (length (requests w)) of
                ConnectionFailed \<Rightarrow> (Inl ConnectionError, w')
              | TimedOut \<Rightarrow> (Inl Timeout, w')
              | Responded status \<Rightarrow>
                  (case raise_for_status status of
                     Inl x \<Rightarrow> (Inl x, w')
                   | Inr _ \<Rightarrow> (Inr ReturnedNone, w')))"

function post_to_discord_from ::
  "nat \<Rightarrow> string option \<Rightarrow> highlight \<Rightarrow> env \<Rightarrow> world \<Rightarrow> (error + post_return) \<times> world" where
  "post_to_discord_from attempt url h e w =
     (let r = post_body url h e w
      in case fst r of
           Inr v \<Rightarrow> r
         | Inl x \<Rightarrow>
             if retry_predicate x
             then (if 3 \<le> attempt then r
                   else post_to_discord_from (attempt + 1) url h e
                          ((snd r)\<lparr>waits := waits (snd r) + 1\<rparr>))
             else r)"
  by pat_completeness auto
termination
  by (relation "measure (\<lambda>(attempt, url, h, e, w). 3 - attempt)") auto

definition post_to_discord ::
  "string option \<Rightarrow> highlight \<Rightarrow> env \<Rightarrow> world \<Rightarrow> (error + post_return) \<times> world" where
  \<comment> \<open>the decorated function: \<^verbatim>\<open>stop_after_attempt(3)\<close>, \<^verbatim>\<open>wait_fixed(0.5)\<close>, \<^verbatim>\<open>reraise=True\<close>\<close>
  "post_to_discord url h e w = post_to_discord_from 1 url h e w"

definition has_posted_video :: "env \<Rightarrow> world \<Rightarrow> string \<Rightarrow> string \<Rightarrow> bool" where
  "has_posted_video e w date_str url = (store w (date_str, sha256_hex e url) \<noteq> None)"

definition mark_video_posted :: "env \<Rightarrow> world \<Rightarrow> string \<Rightarrow> highlight \<Rightarrow> world" where
  "mark_video_posted e w date_str h =
     w\<lparr>store := (store w)((date_str, sha256_hex e (video_url h)) \<mapsto>
          \<lparr>rec_video_url = video_url h, rec_title = title h,
           rec_description = description h\<rparr>)\<rparr>"

fun highlights_loop ::
  "string \<Rightarrow> string option \<Rightarrow> env \<Rightarrow> highlight list \<Rightarrow> world \<Rightarrow> world" where
  "highlights_loop date_str url e [] w = w"
| "highlights_loop date_str url e (h # hs) w =
     (if has_posted_video e w date_str (video_url h) then highlights_loop date_str url e hs w
      else case post_to_discord url h e w of
             (Inr v, w') \<Rightarrow> highlights_loop date_str url e hs (mark_video_posted e w' date_str h)
           | (Inl x, w') \<Rightarrow> highlights_loop date_str url e hs w')"

record game =
  abstractGameState :: string
  gamePk :: "int option"
  highlights_feed :: "error + string"

fun games_loop :: "string \<Rightarrow> string option \<Rightarrow> env \<Rightarrow> game list \<Rightarrow> world \<Rightarrow> world" where
  "games_loop date_str url e [] w = w"
| "games_loop date_str url e (g # gs) w =
     (if abstractGameState g \<noteq> ''Live'' \<and> abstractGameState g \<noteq> ''Final''
      then games_loop date_str url e gs w
      else case gamePk g of
             None \<Rightarrow> games_loop date_str url e gs w
           | Some gid \<Rightarrow>
               if gid = 0 then games_loop date_str url e gs w
               else games_loop date_str url e gs
                      (highlights_loop date_str url e (extract_hr_highlights gid (highlights_feed g)) w))"

definition main_dingers :: "string \<Rightarrow> string option \<Rightarrow> env \<Rightarrow> game list \<Rightarrow> world \<Rightarrow> world" where
  \<comment> \<open>\<^verbatim>\<open>main\<close> of dingers/main.py, given today's date and today's games\<close>
  "main_dingers date_str url e games w = games_loop date_str url e games w"

section \<open>transactions/email.py: subject classification\<close>

datatype transaction_type = CLAIM | DROP | TRADE | BLOCK | DRAFT | UNKNOWN

definition detect_transaction_type :: "string \<Rightarrow> transaction_type" where
  "detect_transaction_type subject0 =
     (let subject = lower subject0
      in if contains ''player(s) claimed'' subject then CLAIM
         else if contains ''free agents added to pool'' subject then DROP
         else if contains ''trade executed'' subject then TRADE
         else if contains ''trade block changed'' subject then BLOCK
         else if contains ''draft pick made'' subject then DRAFT
         else UNKNOWN)"

section \<open>transactions/email.py: the regular expressions\<close>

text \<open>
  Each search of the module is written as the function that Python's backtracking matcher
  computes for that pattern.  A match object is \<open>Some\<close> of its group, no match is \<open>None\<close>,
  and \<^verbatim>\<open>match.group(1)\<close> on \<^verbatim>\<open>None\<close> raises AttributeError.
\<close>

definition group1 :: "'a option \<Rightarrow> error + 'a" where
  "group1 m = (case m of None \<Rightarrow> Inl AttributeError | Some g \<Rightarrow> Inr g)"

definition then_do :: "error + 'a \<Rightarrow> ('a \<Rightarrow> error + 'b) \<Rightarrow> error + 'b" where
  \<comment> \<open>sequencing: an exception of the first step ends the computation\<close>
  "then_do r f = (case r of Inl x \<Rightarrow> Inl x | Inr v \<Rightarrow> f v)"

definition py_last :: "'a list \<Rightarrow> error + 'a" where
  \<comment> \<open>\<^verbatim>\<open>xs[-1]\<close>\<close>
  "py_last xs = (if xs = [] then Inl IndexError else Inr (last xs))"

fun str_partition :: "string \<Rightarrow> string \<Rightarrow> (string \<times> string) option" where
  \<comment> \<open>the text before and after the leftmost occurrence of the pattern\<close>
  "str_partition pat [] = (if pat = [] then Some ([], []) else None)"
| "str_partition pat (c # cs) =
     (if startswith pat (c # cs) then Some ([], drop (length pat) (c # cs))
      else map_option (\<lambda>(b, a). (c # b, a)) (str_partition pat cs))"

definition rsplit1 :: "string \<Rightarrow> string \<Rightarrow> string list" where
  \<comment> \<open>\<^verbatim>\<open>s.rsplit(sep, 1)\<close>: cut at the rightmost occurrence\<close>
  "rsplit1 sep s =
     (case str_partition (rev sep) (rev s) of
        None \<Rightarrow> [s]
      | Some (a, b) \<Rightarrow> [rev b, rev a])"

definition search_between :: "string \<Rightarrow> string \<Rightarrow> string \<Rightarrow> string option" where
  \<comment> \<open>\<^verbatim>\<open>re.search(L + "(.*?)" + N, text, re.DOTALL)\<close> for literals L and N: the leftmost L,
      then the nearest N after it\<close>
  "search_between l n text =
     (case str_partition l text of
        None \<Rightarrow> None
      | Some (before, rest) \<Rightarrow>
          (case str_partition n rest of None \<Rightarrow> None | Some (g, after) \<Rightarrow> Some g))"

fun lazy_until :: "(string \<Rightarrow> bool) \<Rightarrow> string \<Rightarrow> string option" where
  \<comment> \<open>\<^verbatim>\<open>(.*?)\<close> under DOTALL, up to the first position where what follows matches\<close>
  "lazy_until stop [] = (if stop [] then Some [] else None)"
| "lazy_until stop (c # cs) =
     (if stop (c # cs) then Some [] else map_option ((#) c) (lazy_until stop cs))"

fun dot_lazy_until :: "(string \<Rightarrow> bool) \<Rightarrow> string \<Rightarrow> string option" where
  \<comment> \<open>\<^verbatim>\<open>(.*?)\<close> without DOTALL: the dot does not match a newline\<close>
  "dot_lazy_until stop [] = (if stop [] then Some [] else None)"
| "dot_lazy_until stop (c # cs) =
     (if stop (c # cs) then Some []
      else if c = NL then None
      else map_option ((#) c) (dot_lazy_until stop cs))"

definition dot_plus_lazy_until :: "(string \<Rightarrow> bool) \<Rightarrow> string \<Rightarrow> string option" where
  \<comment> \<open>\<^verbatim>\<open>(.+?)\<close> without DOTALL\<close>
  "dot_plus_lazy_until stop s =
     (case s of
        [] \<Rightarrow> None
      | c # cs \<Rightarrow> if c = NL then None else map_option ((#) c) (dot_lazy_until stop cs))"

fun search_team :: "string \<Rightarrow> string option" where
  \<comment> \<open>\<^verbatim>\<open>re.search(r"- (.+?) has made changes to the Trade Block", text)\<close>\<close>
  "search_team [] = None"
| "search_team (c # cs) =
     (if startswith ''- '' (c # cs)
      then (case dot_plus_lazy_until (startswith '' has made changes to the Trade Block'')
                   (drop 2 (c # cs)) of
              Some g \<Rightarrow> Some g
            | None \<Rightarrow> search_team cs)
      else search_team cs)"

definition search_comment :: "string \<Rightarrow> string option" where
  \<comment> \<open>\<^verbatim>\<open>re.search(r"Comment:(.*?)(?:Note that|$)", text, re.DOTALL)\<close>\<close>
  "search_comment text =
     (case str_partition ''Comment:'' text of
        None \<Rightarrow> None
      | Some (before, rest) \<Rightarrow> lazy_until (\<lambda>r. startswith ''Note that'' r \<or> at_end r) rest)"

function split_players :: "string \<Rightarrow> string \<Rightarrow> string list" where
  \<comment> \<open>\<^verbatim>\<open>re.split(r"\n+|\s{2,}", s)\<close>, with the piece read so far as first argument\<close>
  "split_players cur [] = [cur]"
| "split_players cur (c # cs) =
     (if c = NL then cur # split_players [] (dropWhile (\<lambda>x. x = NL) cs)
      else if isspace c \<and> cs \<noteq> [] \<and> isspace (hd cs)
           then cur # split_players [] (dropWhile isspace cs)
           else split_players (cur @ [c]) cs)"
  by pat_completeness auto
termination
  by (relation "measure (\<lambda>(cur, s). length s)")
     (auto simp: length_dropWhile_le le_imp_less_Suc)

definition search_executed :: "string \<Rightarrow> string option" where
  \<comment> \<open>\<^verbatim>\<open>re.search(r"has been executed\.\s*(.*?)Note that you can adjust", text, re.DOTALL)\<close>\<close>
  "search_executed text =
     (case str_partition ''has been executed.'' text of
        None \<Rightarrow> None
      | Some (before, rest) \<Rightarrow>
          (case str_partition ''Note that you can adjust'' (dropWhile isspace rest) of
             None \<Rightarrow> None
           | Some (g, after) \<Rightarrow> Some g))"

function sub_click_here :: "string \<Rightarrow> string" where
  \<comment> \<open>\<^verbatim>\<open>re.sub(r"You can click here to go to.*?\n", "", s)\<close>\<close>
  "sub_click_here [] = []"
| "sub_click_here (c # cs) =
     (if startswith ''You can click here to go to'' (c # cs)
      then (let rest = dropWhile (\<lambda>x. x \<noteq> NL)
                         (drop (length ''You can click here to go to'') (c # cs))
            in if rest = [] then c # sub_click_here cs else sub_click_here (tl rest))
      else c # sub_click_here cs)"
  by pat_completeness auto
termination
proof (relation "measure length")
  fix c :: char and cs rest :: string
  assume r: "rest = dropWhile (\<lambda>x. x \<noteq> NL)
                     (drop (length ''You can click here to go to'') (c # cs))"
    and n: "rest \<noteq> []"
  have "length rest \<le> length (drop (length ''You can click here to go to'') (c # cs))"
    unfolding r by (rule length_dropWhile_le)
  then have "length rest \<le> length (c # cs)" by simp
  moreover have "length (tl rest) < length rest" using n by (cases rest) auto
  ultimately show "(tl rest, c # cs) \<in> measure length" by simp
qed auto

function squeeze_spaces :: "string \<Rightarrow> string" where
  \<comment> \<open>\<^verbatim>\<open>re.sub(r" +", " ", s)\<close>\<close>
  "squeeze_spaces [] = []"
| "squeeze_spaces (c # cs) =
     (if c = CHR '' '' then CHR '' '' # squeeze_spaces (dropWhile (\<lambda>x. x = CHR '' '') cs)
      else c # squeeze_spaces cs)"
  by pat_completeness auto
termination
  by (relation "measure length") (auto simp: length_dropWhile_le le_imp_less_Suc)

function squeeze_whitespace :: "string \<Rightarrow> string" where
  \<comment> \<open>\<^verbatim>\<open>re.sub(r"\s+", " ", s)\<close>\<close>
  "squeeze_whitespace [] = []"
| "squeeze_whitespace (c # cs) =
     (if isspace c then CHR '' '' # squeeze_whitespace (dropWhile isspace cs)
      else c # squeeze_whitespace cs)"
  by pat_completeness auto
termination
  by (relation "measure length") (auto simp: length_dropWhile_le le_imp_less_Suc)

fun join :: "string \<Rightarrow> string list \<Rightarrow> string" where
  \<comment> \<open>\<^verbatim>\<open>sep.join(xs)\<close>\<close>
  "join sep [] = []"
| "join sep [x] = x"
| "join sep (x # y # zs) = x @ sep @ join sep (y # zs)"

section \<open>transactions/email.py: the extractors\<close>

record trade_block =
  team :: string
  players_offered :: "string list"
  positions_offered :: string
  stats_offered :: string
  positions_needed :: string
  stats_needed :: string
  comment :: string

datatype extracted =
  BlockData trade_block
  | TradeData string
  | ClaimData string string string
  | DropData "string list"
  | DraftData string string string string
  | Raw string

definition or_else :: "string \<Rightarrow> string \<Rightarrow> string" where
  \<comment> \<open>\<^verbatim>\<open>x or y\<close> on strings\<close>
  "or_else x y = (if x = [] then y else x)"

definition extract_section :: "string \<Rightarrow> string \<Rightarrow> string \<Rightarrow> error + string" where
  "extract_section text label next_label =
     (let match = search_between (label @ '':'') (next_label @ '':'') text
      in if match \<noteq> None then then_do (group1 match) (\<lambda>g. Inr (strip g)) else Inr [])"

definition parse_trade_block :: "string \<Rightarrow> error + trade_block option" where
  "parse_trade_block text =
     (let team_match = search_team text
      in if team_match = None then Inr None
         else
           then_do (group1 team_match) (\<lambda>g.
           then_do (if contains '' - '' (strip g)
                    then then_do (py_last (rsplit1 '' - '' (strip g))) (\<lambda>x. Inr (strip x))
                    else Inr (strip g)) (\<lambda>team_name.
           then_do (extract_section text ''Players Offered'' ''Positions Offered'') (\<lambda>players_raw.
           then_do (extract_section text ''Positions Offered'' ''Stats Offered'') (\<lambda>po.
           then_do (extract_section text ''Stats Offered'' ''Positions Needed'') (\<lambda>so.
           then_do (extract_section text ''Positions Needed'' ''Stats Needed'') (\<lambda>pn.
           then_do (let stats_needed_match = search_between ''Stats Needed:'' ''Comment:'' text
                    in if stats_needed_match \<noteq> None
                       then then_do (group1 stats_needed_match) (\<lambda>x. Inr (strip x))
                       else Inr []) (\<lambda>sn.
           then_do (let comment_match = search_comment text
                    in if comment_match \<noteq> None
                       then then_do (group1 comment_match) (\<lambda>x. Inr (strip x))
                       else Inr []) (\<lambda>cm.
           Inr (Some
             \<lparr>team = team_name,
              players_offered =
                map strip (filter (\<lambda>p. strip p \<noteq> []) (split_players [] players_raw)),
              positions_offered = or_else po ''(None specified)'',
              stats_offered = or_else so ''(None specified)'',
              positions_needed = or_else pn ''(None specified)'',
              stats_needed = or_else sn ''(None specified)'',
              comment = cm\<rparr>))))))))))"

text \<open>
  The parsed document.  \<^verbatim>\<open>BeautifulSoup(html, "lxml")\<close> is the work of an external parser
  and is a parameter of the functions that call it: it gives the children of the document
  root, or it raises, as it does with UnicodeEncodeError on a str that holds a surrogate
  code point.  The HTML source is only handed to the parser, never read by the module, so
  it is kept as the list of its code points, whatever they are.  \<open>Text\<close> is a string that
  \<^verbatim>\<open>get_text\<close> returns, \<open>Hidden\<close> one that it skips (a comment, a script, a style sheet),
  \<open>Tag\<close> an element with its name, its classes and its children.
\<close>

type_synonym html = "nat list"

datatype node = Text string | Hidden string | Tag string "string list" "node list"

fun children :: "node \<Rightarrow> node list" where
  "children (Tag n cls ch) = ch"
| "children (Text s) = []"
| "children (Hidden s) = []"

fun first_with_class :: "string \<Rightarrow> node list \<Rightarrow> node option" where
  \<comment> \<open>\<^verbatim>\<open>find(class_=c)\<close>: the first element, in document order, that has the class\<close>
  "first_with_class c [] = None"
| "first_with_class c (Text s # ns) = first_with_class c ns"
| "first_with_class c (Hidden s # ns) = first_with_class c ns"
| "first_with_class c (Tag n cls ch # ns) =
     (if c \<in> set cls then Some (Tag n cls ch)
      else case first_with_class c ch of
             Some x \<Rightarrow> Some x
           | None \<Rightarrow> first_with_class c ns)"

fun replace_br :: "node list \<Rightarrow> node list" where
  \<comment> \<open>\<^verbatim>\<open>for br in content_div.find_all("br"): br.replace_with("\n")\<close>\<close>
  "replace_br [] = []"
| "replace_br (Text s # ns) = Text s # replace_br ns"
| "replace_br (Hidden s # ns) = Hidden s # replace_br ns"
| "replace_br (Tag n cls ch # ns) =
     (if n = ''br'' then Text [NL] else Tag n cls (replace_br ch)) # replace_br ns"

fun strings :: "node list \<Rightarrow> string list" where
  \<comment> \<open>the strings that \<^verbatim>\<open>get_text\<close> joins, in document order\<close>
  "strings [] = []"
| "strings (Text s # ns) = s # strings ns"
| "strings (Hidden s # ns) = strings ns"
| "strings (Tag n cls ch # ns) = strings ch @ strings ns"

definition get_text :: "string \<Rightarrow> node list \<Rightarrow> string" where
  "get_text separator ns = join separator (strings ns)"

definition extract_text_content :: "(html \<Rightarrow> error + node list) \<Rightarrow> html \<Rightarrow> error + string" where
  "extract_text_content parser html =
     then_do (parser html) (\<lambda>soup.
       case first_with_class ''darkmode-text'' soup of
         Some content_div \<Rightarrow> Inr (strip (get_text '' '' (replace_br (children content_div))))
       | None \<Rightarrow> Inr (strip (get_text '' '' soup)))"

fun collapse_blank :: "string list \<Rightarrow> string list \<Rightarrow> bool \<Rightarrow> string list" where
  \<comment> \<open>the loop of \<^verbatim>\<open>_parse_trade\<close> over \<^verbatim>\<open>lines\<close>, with \<^verbatim>\<open>result\<close> and \<^verbatim>\<open>prev_empty\<close>\<close>
  "collapse_blank [] result prev_empty = result"
| "collapse_blank (line # lines) result prev_empty =
     (if line = []
      then (if \<not> prev_empty then collapse_blank lines (result @ [line]) True
            else collapse_blank lines result True)
      else collapse_blank lines (result @ [line]) False)"

definition trade_full_text :: "node \<Rightarrow> string" where
  \<comment> \<open>the text of \<^verbatim>\<open>_parse_trade\<close> after whitespace normalisation, before the search\<close>
  "trade_full_text content_div =
     (let full_text = get_text [] (replace_br (children content_div));
          lines = map (\<lambda>line. squeeze_spaces (strip line)) (split [NL] full_text)
      in join [NL] (collapse_blank lines [] False))"

definition parse_trade :: "(html \<Rightarrow> error + node list) \<Rightarrow> html \<Rightarrow> error + extracted option" where
  "parse_trade parser html =
     then_do (parser html) (\<lambda>soup.
       case first_with_class ''darkmode-text'' soup of
         None \<Rightarrow> Inr None
       | Some content_div \<Rightarrow>
           (let match = search_executed (trade_full_text content_div)
            in if match = None then Inr None
               else then_do (group1 match) (\<lambda>g.
                      Inr (Some (TradeData (strip (sub_click_here (strip g))))))))"

text \<open>
  The patterns of the Claim, Drop and Draft extractors are parameters: a search gives
  \<open>None\<close> or the groups of the match, four for Claim and Draft, one for Drop.
\<close>

type_synonym groups4 = "string \<times> string \<times> string \<times> string"

definition parse_claim :: "(string \<Rightarrow> groups4 option) \<Rightarrow> string \<Rightarrow> error + extracted option" where
  "parse_claim re_claim text =
     (let match = re_claim text
      in if match \<noteq> None
         then then_do (group1 match) (\<lambda>(g1, g2, g3, g4).
                Inr (Some (ClaimData (strip g1) (strip g2 @ '' '' @ strip g3) (strip g4))))
         else Inr (Some (Raw text)))"

definition parse_drop :: "(string \<Rightarrow> string option) \<Rightarrow> string \<Rightarrow> error + extracted option" where
  "parse_drop re_drop text =
     (let match = re_drop text
      in if match \<noteq> None
         then then_do (group1 match) (\<lambda>g.
                Inr (Some (DropData
                  (map strip (filter (\<lambda>p. strip p \<noteq> []) (split [NL] (strip g)))))))
         else Inr (Some (Raw text)))"

definition parse_draft :: "(string \<Rightarrow> groups4 option) \<Rightarrow> string \<Rightarrow> error + extracted option" where
  "parse_draft re_draft text =
     (let match = re_draft text
      in if match \<noteq> None
         then then_do (group1 match) (\<lambda>(g1, g2, g3, g4).
                Inr (Some (DraftData (squeeze_whitespace (strip g1)) (squeeze_whitespace (strip g2))
                                     (squeeze_whitespace (strip g3)) (squeeze_whitespace (strip g4)))))
         else Inr (Some (Raw text)))"

section \<open>transactions/email.py: one message, and the inbox pass\<close>

record part =
  mimeType :: "string option"
  body_data :: string

record message =
  headers :: "(string \<times> string) list"
  payload_mimeType :: "string option"
  payload_body_data :: string
  parts :: "part list"

datatype api_call = Get string | Modify string | Post string string

record mail_env =
  labels :: "error + (string \<times> string) list"
  list_raises :: "string option"
  get_message :: "string \<Rightarrow> error + message"
  b64_utf8 :: "string \<Rightarrow> error + html"
  parser :: "html \<Rightarrow> error + node list"
  re_claim :: "string \<Rightarrow> groups4 option"
  re_drop :: "string \<Rightarrow> string option"
  re_draft :: "string \<Rightarrow> groups4 option"
  format_discord_message :: "transaction_type \<Rightarrow> extracted option \<Rightarrow> error + string"
  post_raises :: "string \<Rightarrow> string \<Rightarrow> error option"
  modify_raises :: "string \<Rightarrow> nat \<Rightarrow> bool"

record mail_world =
  mailbox :: "(string \<times> string set) list"
  calls :: "api_call list"

text \<open>
  \<open>mail_env\<close> is what the mail API, the decoder, the parsers, the formatter and the webhook
  answer: the labels of the account as pairs of id and name, whether listing raises (and
  with which message), the
  full message of an id, the decoding of a body (\<^verbatim>\<open>base64.urlsafe_b64decode\<close> followed by
  \<^verbatim>\<open>decode("utf-8")\<close>), whether a post to a webhook raises, and whether the k-th archive call
  that the handling of one message makes raises.  \<open>mail_world\<close> is the mailbox, the messages
  in the order in which the API lists them, each with its label ids, and the log of the
  calls made.  The environment variables are the two optional webhook URLs.
\<close>

definition truthy :: "'a list option \<Rightarrow> bool" where
  \<comment> \<open>the truth value of an optional string\<close>
  "truthy x = (x \<noteq> None \<and> x \<noteq> Some [])"

fun get_label_id :: "(string \<times> string) list \<Rightarrow> string \<Rightarrow> string option" where
  "get_label_id [] label_name = None"
| "get_label_id ((i, n) # ls) label_name =
     (if n = label_name then Some i else get_label_id ls label_name)"

fun subject_of :: "(string \<times> string) list \<Rightarrow> string" where
  "subject_of [] = []"
| "subject_of ((name, val) # hs) = (if lower name = ''subject'' then val else subject_of hs)"

fun html_part :: "(string \<Rightarrow> error + html) \<Rightarrow> part list \<Rightarrow> error + html option" where
  "html_part decode [] = Inr None"
| "html_part decode (p # ps) =
     (if mimeType p = Some ''text/html'' \<and> body_data p \<noteq> []
      then then_do (decode (body_data p)) (\<lambda>x. Inr (Some x))
      else html_part decode ps)"

definition extract_html_body :: "(string \<Rightarrow> error + html) \<Rightarrow> message \<Rightarrow> error + html option" where
  "extract_html_body decode msg =
     (if payload_mimeType msg = Some ''text/html'' \<and> payload_body_data msg \<noteq> []
      then then_do (decode (payload_body_data msg)) (\<lambda>x. Inr (Some x))
      else html_part decode (parts msg))"

definition parse_by_type :: "mail_env \<Rightarrow> transaction_type \<Rightarrow> html \<Rightarrow> error + extracted option" where
  "parse_by_type e transaction_type html_body =
     (case transaction_type of
        BLOCK \<Rightarrow>
          then_do (extract_text_content (parser e) html_body) (\<lambda>text.
          then_do (parse_trade_block text) (\<lambda>d. Inr (map_option BlockData d)))
      | TRADE \<Rightarrow> parse_trade (parser e) html_body
      | CLAIM \<Rightarrow>
          then_do (extract_text_content (parser e) html_body) (parse_claim (re_claim e))
      | DROP \<Rightarrow>
          then_do (extract_text_content (parser e) html_body) (parse_drop (re_drop e))
      | DRAFT \<Rightarrow>
          then_do (extract_text_content (parser e) html_body) (parse_draft (re_draft e))
      | UNKNOWN \<Rightarrow> Inr None)"

definition process_single_message ::
  "mail_env \<Rightarrow> string \<Rightarrow> string option \<Rightarrow> string option
     \<Rightarrow> (error + (string \<times> transaction_type) option) \<times> api_call list" where
  \<comment> \<open>the result, or the exception, together with the calls made\<close>
  "process_single_message e msg_id discord_transactions_url discord_trade_block_url =
     (case get_message e msg_id of
        Inl x \<Rightarrow> (Inl x, [Get msg_id])
      | Inr msg \<Rightarrow>
          (let transaction_type = detect_transaction_type (subject_of (headers msg))
           in if transaction_type = UNKNOWN then (Inr None, [Get msg_id])
              else case extract_html_body (b64_utf8 e) msg of
                     Inl x \<Rightarrow> (Inl x, [Get msg_id])
                   | Inr html_body \<Rightarrow>
                       if \<not> truthy html_body then (Inr None, [Get msg_id])
                       else case then_do (parse_by_type e transaction_type (the html_body))
                                   (format_discord_message e transaction_type) of
                              Inl x \<Rightarrow> (Inl x, [Get msg_id])
                            | Inr discord_message \<Rightarrow>
                                (let webhook_url =
                                       (if transaction_type = BLOCK then discord_trade_block_url
                                        else discord_transactions_url)
                                 in if truthy webhook_url
                                    then (case post_raises e (the webhook_url) discord_message of
                                            Some x \<Rightarrow>
                                              (Inl x, [Get msg_id,
                                                       Post (the webhook_url) discord_message])
                                          | None \<Rightarrow>
                                              (Inr (Some (msg_id, transaction_type)),
                                               [Get msg_id,
                                                Post (the webhook_url) discord_message]))
                                    else (Inr None, [Get msg_id]))))"

definition archive :: "mail_env \<Rightarrow> string \<Rightarrow> nat \<Rightarrow> mail_world \<Rightarrow> bool \<times> mail_world" where
  \<comment> \<open>\<^verbatim>\<open>modify(id=msg_id, body={"removeLabelIds": ["INBOX"]})\<close>; the boolean tells whether the
      call raised, and a call that raised changes no label\<close>
  "archive e msg_id k w =
     (let w' = w\<lparr>calls := calls w @ [Modify msg_id]\<rparr>
      in if modify_raises e msg_id k then (True, w')
         else (False,
               w'\<lparr>mailbox := map (\<lambda>(i, ls). if i = msg_id then (i, ls - {''INBOX''}) else (i, ls))
                                 (mailbox w')\<rparr>))"

definition handle_message ::
  "mail_env \<Rightarrow> string option \<Rightarrow> string option \<Rightarrow> string
     \<Rightarrow> mail_world \<times> (string \<times> transaction_type) list
     \<Rightarrow> mail_world \<times> (string \<times> transaction_type) list" where
  \<comment> \<open>the body of the loop of \<^verbatim>\<open>process_email\<close> for one message stub\<close>
  "handle_message e discord_transactions_url discord_trade_block_url msg_id st =
     (let w = fst st; processed = snd st;
          r = process_single_message e msg_id discord_transactions_url discord_trade_block_url;
          w1 = w\<lparr>calls := calls w @ snd r\<rparr>
      in case fst r of
           Inr result \<Rightarrow>
             (let processed' = (case result of Some x \<Rightarrow> processed @ [x] | None \<Rightarrow> processed);
                  a = archive e msg_id 0 w1
              in if fst a then (snd (archive e msg_id 1 (snd a)), processed')
                 else (snd a, processed'))
         | Inl x \<Rightarrow> (snd (archive e msg_id 0 w1), processed))"

fun messages_loop ::
  "mail_env \<Rightarrow> string option \<Rightarrow> string option \<Rightarrow> string list
     \<Rightarrow> mail_world \<times> (string \<times> transaction_type) list
     \<Rightarrow> mail_world \<times> (string \<times> transaction_type) list" where
  "messages_loop e tu bu [] st = st"
| "messages_loop e tu bu (msg_id # rest) st =
     messages_loop e tu bu rest (handle_message e tu bu msg_id st)"

definition list_messages :: "mail_world \<Rightarrow> string list \<Rightarrow> nat \<Rightarrow> string list" where
  \<comment> \<open>\<^verbatim>\<open>messages().list(labelIds=..., maxResults=n)\<close> of the mail API: the ids of the first
      n messages that carry all the labels\<close>
  "list_messages w label_ids max_results =
     take max_results (map fst (filter (\<lambda>(i, ls). set label_ids \<subseteq> ls) (mailbox w)))"

datatype status =
  StatusError string
  | StatusSkipped string
  | StatusOk "(string \<times> transaction_type) list"

definition process_email ::
  "mail_env \<Rightarrow> string option \<Rightarrow> string option \<Rightarrow> mail_world \<Rightarrow> (error + status) \<times> mail_world" where
  "process_email e discord_transactions_url discord_trade_block_url w =
     (case labels e of
        Inl x \<Rightarrow> (Inl x, w)
      | Inr ls \<Rightarrow>
          (let label_id = get_label_id ls ''DOO Transaction''
           in if \<not> truthy label_id
              then (Inr (StatusError ''DOO Transaction label not found''), w)
              else case list_raises e of
                     Some reason \<Rightarrow> (Inr (StatusError reason), w)
                   | None \<Rightarrow>
                       (let messages = list_messages w [the label_id, ''INBOX''] 50
                        in if messages = []
                           then (Inr (StatusSkipped ''no unarchived messages''), w)
                           else (let st = messages_loop e discord_transactions_url
                                            discord_trade_block_url messages (w, [])
                                 in (Inr (StatusOk (snd st)), fst st)))))"

text \<open>
  The archive calls that the handling of one message issues: one, or two when the
  processing returned and the first archive call raised.
\<close>

definition archive_calls :: "mail_env \<Rightarrow> string option \<Rightarrow> string option \<Rightarrow> string \<Rightarrow> api_call list" where
  "archive_calls e tu bu m =
     (if (\<exists>x. fst (process_single_message e m tu bu) = Inl x) \<or> \<not> modify_raises e m 0
      then [Modify m] else [Modify m, Modify m])"

text \<open>
  An environment for the examples: one label, every message a Trade email without an
  HTML part, no failure but the archive calls chosen by the parameter.
\<close>

definition example_env :: "(string \<Rightarrow> nat \<Rightarrow> bool) \<Rightarrow> mail_env" where
  "example_env raises =
     \<lparr>labels = Inr [(''Label_7'', ''DOO Transaction'')],
      list_raises = None,
      get_message = (\<lambda>i. Inr \<lparr>headers = [(''Subject'', ''Trade Executed'')],
                               payload_mimeType = Some ''text/plain'',
                               payload_body_data = ''aGk='', parts = []\<rparr>),
      b64_utf8 = (\<lambda>data. Inr []),
      parser = (\<lambda>html. Inr []),
      re_claim = (\<lambda>text. None),
      re_drop = (\<lambda>text. None),
      re_draft = (\<lambda>text. None),
      format_discord_message = (\<lambda>t d. Inr []),
      post_raises = (\<lambda>url content. None),
      modify_raises = raises\<rparr>"

section \<open>Notions used to state the properties of the body text\<close>

fun classes :: "node \<Rightarrow> string list" where
  "classes (Tag n cls ch) = cls"
| "classes (Text s) = []"
| "classes (Hidden s) = []"

fun descendants :: "node list \<Rightarrow> node list" where
  \<comment> \<open>the nodes below the given ones, in document order\<close>
  "descendants [] = []"
| "descendants (Text s # ns) = Text s # descendants ns"
| "descendants (Hidden s # ns) = Hidden s # descendants ns"
| "descendants (Tag n cls ch # ns) = Tag n cls ch # descendants ch @ descendants ns"

fun br_strings :: "node list \<Rightarrow> string list" where
  \<comment> \<open>the visible strings in document order, with a newline for each line-break element\<close>
  "br_strings [] = []"
| "br_strings (Text s # ns) = s # br_strings ns"
| "br_strings (Hidden s # ns) = br_strings ns"
| "br_strings (Tag n cls ch # ns) = (if n = ''br'' then [[NL]] else br_strings ch) @ br_strings ns"

fun adjacent_empty :: "string list \<Rightarrow> bool" where
  \<comment> \<open>two empty lines in a row\<close>
  "adjacent_empty (a # b # rest) = ((a = [] \<and> b = []) \<or> adjacent_empty (b # rest))"
| "adjacent_empty [a] = False"
| "adjacent_empty [] = False"

definition single_blanks :: "string list \<Rightarrow> string list" where
  \<comment> \<open>the lines without each empty line that comes right after an empty line: a run of
      blank lines becomes a single blank line\<close>
  "single_blanks ls =
     map (\<lambda>i. ls ! i)
       (filter (\<lambda>i. \<not> (ls ! i = [] \<and> 0 < i \<and> ls ! (i - 1) = [])) [0..<length ls])"

definition surrogate :: "nat \<Rightarrow> bool" where
  "surrogate c = (55296 \<le> c \<and> c \<le> 57343)"

definition refusing_parser :: "(html \<Rightarrow> node list) \<Rightarrow> html \<Rightarrow> error + node list" where
  \<comment> \<open>a parser that raises UnicodeEncodeError on a source that holds a surrogate code
      point, as \<^verbatim>\<open>BeautifulSoup(html, "lxml")\<close> does, and parses every other source\<close>
  "refusing_parser p h = (if list_ex surrogate h then Inl UnicodeEncodeError else Inr (p h))"

section \<open>Notions used to state the properties of the trade-block parser\<close>

text \<open>
  A trade-block email of the team Grand Salamis is written as the text before the team
  line, the team line with the league name in front of the team name, and six labelled
  sections.  The players section is a first name followed by separators and names; a
  name has no newline, no two whitespace characters in a row and no whitespace at either
  end, and a separator is whitespace that holds a newline or at least two characters.
\<close>

fun labelled :: "(string \<times> string) list \<Rightarrow> string \<Rightarrow> string" where
  \<comment> \<open>a text made of sections, each a content followed by its label and a colon\<close>
  "labelled [] tail = tail"
| "labelled ((c, lab) # segs) tail = c @ lab @ CHR '':'' # labelled segs tail"

definition unrelated :: "string \<Rightarrow> string \<Rightarrow> bool" where
  \<comment> \<open>neither label is the end of the other\<close>
  "unrelated a b = (\<not> startswith (rev a) (rev b) \<and> \<not> startswith (rev b) (rev a))"

fun name_ok :: "string \<Rightarrow> bool" where
  \<comment> \<open>no newline, no two whitespace characters in a row, no whitespace at the end\<close>
  "name_ok [] = False"
| "name_ok [c] = (\<not> isspace c)"
| "name_ok (c # d # cs) = (c \<noteq> NL \<and> \<not> (isspace c \<and> isspace d) \<and> name_ok (d # cs))"

definition is_name :: "string \<Rightarrow> bool" where
  "is_name p = (name_ok p \<and> \<not> isspace (hd p))"

definition is_sep :: "string \<Rightarrow> bool" where
  \<comment> \<open>whitespace with a newline in it, or at least two whitespace characters\<close>
  "is_sep s = (list_all isspace s \<and> (NL \<in> set s \<or> 2 \<le> length s))"

fun players_text :: "string \<Rightarrow> (string \<times> string) list \<Rightarrow> string" where
  \<comment> \<open>a first name, then separators each followed by a name\<close>
  "players_text p [] = p"
| "players_text p ((s, q) # rest) = p @ s @ players_text q rest"

definition names_from :: "string \<Rightarrow> string \<Rightarrow> string list" where
  "names_from cur s = map strip (filter (\<lambda>p. strip p \<noteq> []) (split_players cur s))"

definition TEAM_LINE :: string where
  "TEAM_LINE = ''- The Don Orsillo Open - Grand Salamis has made changes to the Trade Block''"

fun trade_block_text ::
  "string \<Rightarrow> string \<Rightarrow> string \<Rightarrow> string \<times> string \<times> string \<times> string \<times> string
     \<Rightarrow> string \<Rightarrow> string" where
  \<comment> \<open>a trade-block email of team Grand Salamis: the text before the team line, the text
      between it and the sections, the players section, the contents of the five other
      sections, and the rest\<close>
  "trade_block_text pre mid players (po, so, pn, sn, cm) tail =
     pre @ TEAM_LINE @ mid @ ''Players Offered:'' @ players @ ''Positions Offered:'' @ po
       @ ''Stats Offered:'' @ so @ ''Positions Needed:'' @ pn @ ''Stats Needed:'' @ sn
       @ ''Comment:'' @ cm @ tail"

definition example_names :: "(string \<times> string) list" where
  "example_names =
     [('' '' @ [NL] @ '' '', ''Turner, Trea''), ('' '' @ [NL] @ '' '', ''Smith, Cam''),
      ('' '' @ [NL] @ '' '', ''Wallner, Matt''), ('' '' @ [NL] @ '' '', ''Miller, Bryce''),
      ('' '' @ [NL] @ '' '', ''Pfaadt, Brandon'')]"

definition example_block_text :: string where
  "example_block_text =
     trade_block_text ''Fantrax '' (''.'' @ [NL])
       ('' '' @ [NL] @ '' '' @ players_text ''Contreras, Willson'' example_names @ '' '' @ [NL])
       ('' '', '' '', '' '', '' '', '' '') ''Note that this is an automated message.''"

section \<open>Facts about the string primitives\<close>

lemma startswith_iff: "startswith p s \<longleftrightarrow> (\<exists>b. s = p @ b)"
  by (induction p s rule: startswith.induct) auto

lemma contains_iff: "contains p s \<longleftrightarrow> occurs_in p s"
proof (induction s)
  case Nil
  then show ?case by (simp add: occurs_in_def)
next
  case (Cons c cs)
  show ?case
  proof
    assume "contains p (c # cs)"
    then consider "startswith p (c # cs)" | "contains p cs" by auto
    then show "occurs_in p (c # cs)"
    proof cases
      case 1
      then obtain b where "c # cs = p @ b" using startswith_iff by blast
      then have "c # cs = [] @ p @ b" by simp
      then show ?thesis unfolding occurs_in_def by blast
    next
      case 2
      then obtain a b where "cs = a @ p @ b" using Cons.IH occurs_in_def by blast
      then have "c # cs = (c # a) @ p @ b" by simp
      then show ?thesis unfolding occurs_in_def by blast
    qed
  next
    assume "occurs_in p (c # cs)"
    then obtain a b where ab: "c # cs = a @ p @ b" unfolding occurs_in_def by blast
    show "contains p (c # cs)"
    proof (cases a)
      case Nil
      with ab have "startswith p (c # cs)" using startswith_iff by fastforce
      then show ?thesis by simp
    next
      case (Cons x a')
      with ab have "cs = a' @ p @ b" by simp
      then have "occurs_in p cs" unfolding occurs_in_def by blast
      then show ?thesis using Cons.IH by simp
    qed
  qed
qed

section \<open>Subject classification\<close>

text \<open>
  C2.  The classifier returns a variant for every subject, and the variant is the first
  one, in the order Claim, Drop, Trade, Block, Draft, whose phrase occurs in the
  lower-cased subject; Unknown when none occurs.  The three subjects named by the
  specification classify as Claim, Block and Unknown.
\<close>

theorem detect_transaction_type_priority:
  "detect_transaction_type subject =
     (if occurs_in ''player(s) claimed'' (lower subject) then CLAIM
      else if occurs_in ''free agents added to pool'' (lower subject) then DROP
      else if occurs_in ''trade executed'' (lower subject) then TRADE
      else if occurs_in ''trade block changed'' (lower subject) then BLOCK
      else if occurs_in ''draft pick made'' (lower subject) then DRAFT
      else UNKNOWN)
   \<and> detect_transaction_type ''Player(s) Claimed - Team X'' = CLAIM
   \<and> detect_transaction_type ''TRADE BLOCK CHANGED for Team Y'' = BLOCK
   \<and> detect_transaction_type ''Weekly newsletter'' = UNKNOWN"
proof -
  have general: "detect_transaction_type subject =
     (if occurs_in ''player(s) claimed'' (lower subject) then CLAIM
      else if occurs_in ''free agents added to pool'' (lower subject) then DROP
      else if occurs_in ''trade executed'' (lower subject) then TRADE
      else if occurs_in ''trade block changed'' (lower subject) then BLOCK
      else if occurs_in ''draft pick made'' (lower subject) then DRAFT
      else UNKNOWN)"
    unfolding detect_transaction_type_def Let_def contains_iff by (rule refl)
  have e1: "detect_transaction_type ''Player(s) Claimed - Team X'' = CLAIM"
    by code_simp
  have e2: "detect_transaction_type ''TRADE BLOCK CHANGED for Team Y'' = BLOCK"
    by code_simp
  have e3: "detect_transaction_type ''Weekly newsletter'' = UNKNOWN"
    by code_simp
  from general e1 e2 e3 show ?thesis by blast
qed

theorem detect_transaction_type_priority_witness:
  "occurs_in ''trade executed'' (lower ''Fwd: Trade Executed today'')
   \<and> \<not> occurs_in ''player(s) claimed'' (lower ''Fwd: Trade Executed today'')
   \<and> detect_transaction_type ''Fwd: Trade Executed today'' = TRADE"
proof -
  have a: "occurs_in ''trade executed'' (lower ''Fwd: Trade Executed today'')"
    unfolding contains_iff [symmetric] by code_simp
  have b: "\<not> occurs_in ''player(s) claimed'' (lower ''Fwd: Trade Executed today'')"
    unfolding contains_iff [symmetric] by code_simp
  have c: "\<not> occurs_in ''free agents added to pool'' (lower ''Fwd: Trade Executed today'')"
    unfolding contains_iff [symmetric] by code_simp
  from a b c detect_transaction_type_priority [of "''Fwd: Trade Executed today''"]
  show ?thesis by simp
qed

section \<open>Home-run classification\<close>

lemma hr_loop_set:
  "set (hr_loop gid entries acc) =
     set acc \<union> {h. \<exists>e \<in> set entries. highlight_of_entry gid e = Some h}"
  by (induction entries arbitrary: acc) (auto split: option.splits)

lemma highlight_of_entry_parts:
  assumes "split [NL] entry = t # d # v # rest"
  shows "highlight_of_entry gid entry =
     (if occurs_in ''homer'' (lower t) \<or> occurs_in ''home run'' (lower t)
         \<or> occurs_in ''homer'' (lower d) \<or> occurs_in ''home run'' (lower d)
      then Some \<lparr>title = t, description = d, video_url = v, game_id = gid\<rparr>
      else None)"
proof -
  have "entry \<noteq> []"
  proof
    assume "entry = []"
    then have "split [NL] entry = [[]]" by (simp add: split_def)
    with assms show False by simp
  qed
  then show ?thesis
    using assms by (simp add: highlight_of_entry_def Let_def contains_iff)
qed

text \<open>
  C8.  An entry of the feed that has a title, a description and a video URL is among the
  extracted home-run highlights exactly when the lower-cased title or the lower-cased
  description contains "homer" or "home run"; with neither phrase in either field it is
  left out.
\<close>

theorem extract_hr_highlights_iff:
  assumes "entry \<in> set (split [NL, NL] feed)"
    and "split [NL] entry = t # d # v # rest"
  shows "\<lparr>title = t, description = d, video_url = v, game_id = gid\<rparr>
           \<in> set (extract_hr_highlights gid (Inr feed))
         \<longleftrightarrow> occurs_in ''homer'' (lower t) \<or> occurs_in ''home run'' (lower t)
             \<or> occurs_in ''homer'' (lower d) \<or> occurs_in ''home run'' (lower d)"
proof
  assume "\<lparr>title = t, description = d, video_url = v, game_id = gid\<rparr>
            \<in> set (extract_hr_highlights gid (Inr feed))"
  then obtain e where e: "highlight_of_entry gid e
      = Some \<lparr>title = t, description = d, video_url = v, game_id = gid\<rparr>"
    by (auto simp: extract_hr_highlights_def hr_loop_set)
  then show "occurs_in ''homer'' (lower t) \<or> occurs_in ''home run'' (lower t)
             \<or> occurs_in ''homer'' (lower d) \<or> occurs_in ''home run'' (lower d)"
    by (auto simp: highlight_of_entry_def Let_def contains_iff split: if_splits)
next
  assume "occurs_in ''homer'' (lower t) \<or> occurs_in ''home run'' (lower t)
             \<or> occurs_in ''homer'' (lower d) \<or> occurs_in ''home run'' (lower d)"
  then have "highlight_of_entry gid entry
      = Some \<lparr>title = t, description = d, video_url = v, game_id = gid\<rparr>"
    using highlight_of_entry_parts [OF assms(2)] by simp
  with assms(1) show "\<lparr>title = t, description = d, video_url = v, game_id = gid\<rparr>
            \<in> set (extract_hr_highlights gid (Inr feed))"
    by (auto simp: extract_hr_highlights_def hr_loop_set)
qed

theorem extract_hr_highlights_iff_witness:
  "''Smith HOMERS'' @ [NL] @ ''A solo shot'' @ [NL] @ ''http://v/1''
     \<in> set (split [NL, NL]
         (''Smith HOMERS'' @ [NL] @ ''A solo shot'' @ [NL] @ ''http://v/1'' @ [NL, NL]
          @ ''Jones doubles'' @ [NL] @ ''A double'' @ [NL] @ ''http://v/2''))
   \<and> split [NL] (''Smith HOMERS'' @ [NL] @ ''A solo shot'' @ [NL] @ ''http://v/1'')
       = [''Smith HOMERS'', ''A solo shot'', ''http://v/1'']
   \<and> occurs_in ''homer'' (lower ''Smith HOMERS'')
   \<and> \<lparr>title = ''Smith HOMERS'', description = ''A solo shot'', video_url = ''http://v/1'',
        game_id = 7\<rparr>
       \<in> set (extract_hr_highlights 7 (Inr
         (''Smith HOMERS'' @ [NL] @ ''A solo shot'' @ [NL] @ ''http://v/1'' @ [NL, NL]
          @ ''Jones doubles'' @ [NL] @ ''A double'' @ [NL] @ ''http://v/2'')))"
proof -
  let ?e = "''Smith HOMERS'' @ [NL] @ ''A solo shot'' @ [NL] @ ''http://v/1''"
  let ?f = "?e @ [NL, NL] @ ''Jones doubles'' @ [NL] @ ''A double'' @ [NL] @ ''http://v/2''"
  have a: "?e \<in> set (split [NL, NL] ?f)"
    by (simp add: split_def)
  have b: "split [NL] ?e = ''Smith HOMERS'' # ''A solo shot'' # ''http://v/1'' # []"
    by (simp add: split_def)
  have c: "occurs_in ''homer'' (lower ''Smith HOMERS'')"
    unfolding contains_iff [symmetric] by code_simp
  from extract_hr_highlights_iff [OF a b, of 7] a b c show ?thesis by simp
qed

section \<open>Whitespace stripping and the timestamp pattern\<close>

lemma not_space_paren [simp]: "\<not> isspace CHR ''(''" "\<not> isspace CHR '')''"
  by (simp_all add: isspace_def)

lemma isspace_NL [simp]: "isspace NL"
  by (simp add: isspace_def)

lemma rstrip_Nil [simp]: "rstrip [] = []"
  by (simp add: rstrip_def)

lemma rstrip_Cons:
  "rstrip (c # cs) = (if list_all isspace (c # cs) then [] else c # rstrip cs)"
  by (auto simp: rstrip_def dropWhile_append list_all_iff)

lemma rstrip_idem: "rstrip (rstrip x) = rstrip x"
  by (simp add: rstrip_def)

lemma rstrip_all_space: "list_all isspace x \<Longrightarrow> rstrip x = []"
  by (induction x) (auto simp: rstrip_Cons)

lemma rstrip_append_space: "list_all isspace w \<Longrightarrow> rstrip (x @ w) = rstrip x"
  by (induction x) (auto simp: rstrip_Cons rstrip_all_space)

lemma rstrip_last_nonspace: "x \<noteq> [] \<Longrightarrow> \<not> isspace (last x) \<Longrightarrow> rstrip x = x"
  by (induction x) (auto simp: rstrip_Cons list_all_iff split: if_splits)

lemma lstrip_rstrip: "lstrip (rstrip x) = rstrip (lstrip x)"
proof (induction x)
  case Nil
  then show ?case by (simp add: lstrip_def)
next
  case (Cons c cs)
  show ?case
  proof (cases "list_all isspace (c # cs)")
    case True
    then have "lstrip (c # cs) = []" by (simp add: lstrip_def list_all_iff)
    moreover have "lstrip [] = []" by (simp add: lstrip_def)
    ultimately show ?thesis using True by (simp add: rstrip_Cons)
  next
    case False
    then show ?thesis
      using Cons.IH by (auto simp: rstrip_Cons lstrip_def)
  qed
qed

lemma strip_rstrip: "strip (rstrip x) = strip x"
  by (simp add: strip_def lstrip_rstrip rstrip_idem)

lemma is_timestamp_facts:
  assumes "is_timestamp ts"
  shows "length ts = 10" "ts \<noteq> []" "hd ts = CHR ''(''" "last ts = CHR '')''"
proof -
  show len: "length ts = 10" using assms by (simp add: is_timestamp_def)
  then show ne: "ts \<noteq> []" by auto
  show "hd ts = CHR ''(''" using assms ne by (simp add: is_timestamp_def hd_conv_nth)
  show "last ts = CHR '')''" using assms ne len by (simp add: is_timestamp_def last_conv_nth)
qed

lemma all_space_of_at_end:
  assumes "at_end (dropWhile isspace w)"
  shows "list_all isspace w"
proof -
  have "dropWhile isspace w \<noteq> [NL]"
  proof
    assume h: "dropWhile isspace w = [NL]"
    then have "\<not> isspace (hd (dropWhile isspace w))"
      using hd_dropWhile [of isspace w] by simp
    with h show False by simp
  qed
  with assms have "dropWhile isspace w = []" by (simp add: at_end_def)
  then show ?thesis by (simp add: list_all_iff)
qed

lemma timestamp_tail_here:
  assumes "is_timestamp ts" "list_all isspace w" "list_all isspace pre"
  shows "timestamp_tail (pre @ ts @ w)"
proof -
  have "dropWhile isspace (pre @ ts @ w) = ts @ w"
    using assms is_timestamp_facts [OF assms(1)]
    by (cases ts) (auto simp: dropWhile_append list_all_iff)
  moreover have "dropWhile isspace w = []" using assms(2) by (simp add: list_all_iff)
  ultimately show ?thesis
    using assms(1) is_timestamp_facts(1) [OF assms(1)]
    by (simp add: timestamp_tail_def at_end_def)
qed

lemma timestamp_tail_decompose:
  assumes "timestamp_tail s"
  shows "\<exists>w1 ts w2. s = w1 @ ts @ w2 \<and> list_all isspace w1 \<and> is_timestamp ts
           \<and> list_all isspace w2"
proof -
  let ?r = "dropWhile isspace s"
  from assms have ts: "is_timestamp (take 10 ?r)"
    and e: "at_end (dropWhile isspace (drop 10 ?r))"
    by (simp_all add: timestamp_tail_def Let_def)
  have "s = takeWhile isspace s @ take 10 ?r @ drop 10 ?r" by simp
  moreover have "list_all isspace (takeWhile isspace s)"
    by (simp add: list_all_iff) (meson set_takeWhileD)
  moreover note ts all_space_of_at_end [OF e]
  ultimately show ?thesis by blast
qed

lemma rstrip_timestamp:
  assumes "is_timestamp ts" "list_all isspace w"
  shows "rstrip (p @ ts @ w) = p @ ts"
proof -
  have "rstrip (p @ ts @ w) = rstrip ((p @ ts) @ w)" by simp
  also have "\<dots> = rstrip (p @ ts)" using assms(2) by (rule rstrip_append_space)
  also have "\<dots> = p @ ts"
    using is_timestamp_facts [OF assms(1)] by (intro rstrip_last_nonspace) auto
  finally show ?thesis .
qed

lemma ends_in_timestamp_append:
  assumes "is_timestamp ts" "list_all isspace w"
  shows "ends_in_timestamp (p @ ts @ w)"
  using assms is_timestamp_facts(1) [OF assms(1)]
  by (simp add: ends_in_timestamp_def rstrip_timestamp)

lemma timestamp_tail_ends:
  assumes "timestamp_tail s"
  shows "ends_in_timestamp (p @ s)"
proof -
  from timestamp_tail_decompose [OF assms] obtain w1 ts w2
    where s: "s = w1 @ ts @ w2" and ts: "is_timestamp ts" and w2: "list_all isspace w2"
    by blast
  have "ends_in_timestamp ((p @ w1) @ ts @ w2)" using ts w2 by (rule ends_in_timestamp_append)
  with s show ?thesis by simp
qed

lemma sub_timestamp_unchanged:
  "\<not> ends_in_timestamp (p @ t) \<Longrightarrow> sub_timestamp t = t"
proof (induction t arbitrary: p)
  case Nil
  then show ?case by simp
next
  case (Cons c cs)
  have "\<not> timestamp_tail (c # cs)"
    using Cons.prems timestamp_tail_ends [of "c # cs" p] by auto
  moreover have "sub_timestamp cs = cs"
    using Cons.IH [of "p @ [c]"] Cons.prems by simp
  ultimately show ?case by simp
qed

lemma timestamp_tail_only_after_space:
  assumes "is_timestamp ts" "list_all isspace w" "timestamp_tail (pre @ ts @ w)"
  shows "list_all isspace pre"
proof (rule ccontr)
  assume n: "\<not> list_all isspace pre"
  let ?u = "dropWhile isspace pre"
  from n have u: "?u \<noteq> []" by (auto simp: list_all_iff)
  have r: "dropWhile isspace (pre @ ts @ w) = ?u @ ts @ w"
    using n by (auto simp: dropWhile_append list_all_iff)
  from assms(3) have "at_end (dropWhile isspace (drop 10 (?u @ ts @ w)))"
    by (simp add: timestamp_tail_def Let_def r)
  then have sp0: "list_all isspace (drop 10 (?u @ ts @ w))" by (rule all_space_of_at_end)
  have len: "length ts = 10" using assms(1) by (rule is_timestamp_facts)
  define X where "X = ?u @ ts @ w"
  have sp: "\<forall>x \<in> set (drop 10 X). isspace x"
    unfolding X_def using sp0 by (simp only: list_all_iff)
  define k where "k = length ?u - 1"
  have k: "length ?u + 9 = 10 + k" using u by (cases ?u) (auto simp: k_def)
  have "X ! (length ?u + 9) = ts ! 9"
    using len by (simp add: X_def nth_append)
  also have "\<dots> = CHR '')''" using assms(1) by (simp add: is_timestamp_def)
  finally have c: "X ! (10 + k) = CHR '')''" by (simp only: k)
  have lenX: "length X = length ?u + 10 + length w" by (simp add: X_def len)
  have "drop 10 X ! k = X ! (10 + k)"
    by (rule nth_drop) (simp add: lenX)
  with c have "drop 10 X ! k = CHR '')''" by simp
  moreover have "k < length (drop 10 X)" using k lenX by simp
  ultimately have "CHR '')'' \<in> set (drop 10 X)"
    using nth_mem [of k "drop 10 X"] by simp
  with sp have "isspace CHR '')''" by blast
  then show False by simp
qed

lemma sub_timestamp_append:
  assumes "is_timestamp ts" "list_all isspace w"
  shows "sub_timestamp (pre @ ts @ w) = rstrip pre"
proof (induction pre)
  case Nil
  have "timestamp_tail (ts @ w)" using timestamp_tail_here [OF assms, of "[]"] by simp
  then show ?case using is_timestamp_facts(2) [OF assms(1)] by (cases ts) auto
next
  case (Cons c cs)
  have "timestamp_tail ((c # cs) @ ts @ w) \<longleftrightarrow> list_all isspace (c # cs)"
    using timestamp_tail_here [OF assms] timestamp_tail_only_after_space [OF assms] by blast
  then show ?case using Cons.IH by (simp add: rstrip_Cons)
qed

section \<open>Title cleaning\<close>

text \<open>
  C7, as the code has it.  Title cleaning removes a trailing \<^verbatim>\<open>(HH:MM:SS)\<close> annotation
  together with the whitespace around it, and strips leading and trailing whitespace
  from what is left: "Smith homers (02:34:56)" becomes "Smith homers".  A title that does
  not end in such a timestamp comes back stripped of leading and trailing whitespace, so
  it is unchanged when it has none.
\<close>

theorem clean_title_spec:
  "clean_title ''Smith homers (02:34:56)'' = ''Smith homers''
   \<and> (is_timestamp ts \<and> list_all isspace w \<longrightarrow> clean_title (pre @ ts @ w) = strip pre)
   \<and> (\<not> ends_in_timestamp t \<longrightarrow> clean_title t = strip t)
   \<and> (\<not> ends_in_timestamp t \<and> strip t = t \<longrightarrow> clean_title t = t)"
proof -
  have a: "clean_title (pre @ ts @ w) = strip pre" if "is_timestamp ts" "list_all isspace w"
    for pre ts w
    using that by (simp add: clean_title_def sub_timestamp_append strip_rstrip)
  have ts: "is_timestamp ''(02:34:56)''" by (simp add: is_timestamp_def isdigit_def)
  have "clean_title (''Smith homers '' @ ''(02:34:56)'' @ []) = strip ''Smith homers ''"
    by (rule a [OF ts]) simp
  moreover have "strip ''Smith homers '' = ''Smith homers''"
    by (simp add: strip_def lstrip_def rstrip_def isspace_def)
  ultimately have ex: "clean_title ''Smith homers (02:34:56)'' = ''Smith homers''" by simp
  have b: "clean_title t = strip t" if "\<not> ends_in_timestamp t"
  proof -
    have "\<not> ends_in_timestamp ([] @ t)" using that by simp
    then have "sub_timestamp t = t" by (rule sub_timestamp_unchanged)
    then show ?thesis by (simp add: clean_title_def)
  qed
  show ?thesis
  proof (intro conjI impI)
    show "clean_title ''Smith homers (02:34:56)'' = ''Smith homers''" by (rule ex)
    show "clean_title (pre @ ts @ w) = strip pre" if "is_timestamp ts \<and> list_all isspace w"
      using that a by blast
    show "clean_title t = strip t" if "\<not> ends_in_timestamp t"
      using that by (rule b)
    show "clean_title t = t" if "\<not> ends_in_timestamp t \<and> strip t = t"
      using that b by metis
  qed
qed

theorem clean_title_spec_witness:
  "is_timestamp ''(12:00:09)'' \<and> list_all isspace '' ''
   \<and> clean_title (''Lee walks off'' @ ''(12:00:09)'' @ '' '') = strip ''Lee walks off''
   \<and> \<not> ends_in_timestamp ''Jones doubles'' \<and> strip ''Jones doubles'' = ''Jones doubles''
   \<and> clean_title ''Jones doubles'' = ''Jones doubles''"
proof -
  have a: "is_timestamp ''(12:00:09)''" by (simp add: is_timestamp_def isdigit_def)
  have b: "list_all isspace '' ''" by (simp add: isspace_def)
  have c: "\<not> ends_in_timestamp ''Jones doubles''"
    by (simp add: ends_in_timestamp_def rstrip_def isspace_def is_timestamp_def)
  have d: "strip ''Jones doubles'' = ''Jones doubles''"
    by (simp add: strip_def lstrip_def rstrip_def isspace_def)
  from a b c d
    clean_title_spec [where ts = "''(12:00:09)''" and w = "'' ''" and pre = "''Lee walks off''"
      and t = "''Jones doubles''"]
  show ?thesis by blast
qed

text \<open>
  A title without a timestamp is not always left unchanged: one that ends in a space
  loses the space.
\<close>

theorem clean_title_counterexample:
  "\<not> ends_in_timestamp ''Smith homers '' \<and> clean_title ''Smith homers '' \<noteq> ''Smith homers ''"
proof -
  have c: "\<not> ends_in_timestamp ''Smith homers ''"
    by (simp add: ends_in_timestamp_def rstrip_def isspace_def is_timestamp_def)
  have "\<not> ends_in_timestamp ([] @ ''Smith homers '')" using c by simp
  then have "sub_timestamp ''Smith homers '' = ''Smith homers ''" by (rule sub_timestamp_unchanged)
  then have "clean_title ''Smith homers '' = ''Smith homers''"
    by (simp add: clean_title_def strip_def lstrip_def rstrip_def isspace_def)
  with c show ?thesis by simp
qed

section \<open>The retry policy\<close>

lemma http_error_not_retried:
  assumes "raise_for_status status = Inl x"
  shows "\<not> retry_predicate x"
proof -
  from assms have x: "x = HTTPError (Some status)" and r: "400 \<le> status \<and> status < 600"
    by (auto simp: raise_for_status_def split: if_splits)
  from r have "\<not> response_bool status" by (simp add: response_bool_def)
  with x show ?thesis by (simp add: retry_predicate_def should_retry_http_error_def)
qed

text \<open>
  C6 at the responses 503, 503, 200.  The first 503 makes \<^verbatim>\<open>raise_for_status\<close> raise an
  HTTPError whose response is false as a truth value, so \<^verbatim>\<open>_should_retry_http_error\<close>
  reads no status code and answers False: the error reaches the caller after one request
  and no wait.
\<close>

theorem post_to_discord_503_raises_at_once:
  "(let r = post_to_discord (Some ''https://discord.example/hook'')
              \<lparr>title = ''Smith homers (02:34:56)'', description = ''A solo shot'',
               video_url = ''http://v/1'', game_id = 7\<rparr>
              \<lparr>webhook = (\<lambda>n. if n < 2 then Responded 503 else Responded 200),
               sha256_hex = (\<lambda>u. u)\<rparr>
              \<lparr>store = Map.empty, requests = [], waits = 0\<rparr>
    in fst r = Inl (HTTPError (Some 503)) \<and> length (requests (snd r)) = 1
       \<and> waits (snd r) = 0)"
  by (simp add: post_to_discord_def post_body_def raise_for_status_def retry_predicate_def
      should_retry_http_error_def response_bool_def Let_def)

section \<open>The dedup record\<close>

text \<open>
  C9 with no webhook URL configured.  \<^verbatim>\<open>post_to_discord\<close> returns False without making a
  request, \<^verbatim>\<open>main\<close> does not look at the returned value, and the dedup document of the
  highlight is written although nothing was posted.
\<close>

theorem main_dingers_marks_without_post:
  "(let w = main_dingers ''2025-06-01'' None
              \<lparr>webhook = (\<lambda>n. Responded 204), sha256_hex = (\<lambda>u. u)\<rparr>
              [\<lparr>abstractGameState = ''Final'', gamePk = Some 7,
                highlights_feed = Inr (''Smith homers'' @ [NL] @ ''A solo shot'' @ [NL]
                                       @ ''http://v/1'')\<rparr>]
              \<lparr>store = Map.empty, requests = [], waits = 0\<rparr>
    in store w (''2025-06-01'', ''http://v/1'') \<noteq> None \<and> requests w = [])"
  by (simp add: main_dingers_def extract_hr_highlights_def split_def highlight_of_entry_def
      lower_def lower_char_def has_posted_video_def post_to_discord_def post_body_def
      mark_video_posted_def Let_def)

section \<open>The inbox pass\<close>

lemma process_single_message_calls:
  "Modify i \<notin> set (snd (process_single_message e m tu bu))"
  "Get i \<in> set (snd (process_single_message e m tu bu)) \<Longrightarrow> i = m"
  by (auto simp: process_single_message_def Let_def split: sum.splits option.splits if_splits)

lemma calls_archive: "calls (snd (archive e m k w)) = calls w @ [Modify m]"
  by (simp add: archive_def Let_def)

lemma handle_message_calls:
  "calls (fst (handle_message e tu bu m (w, ps)))
     = calls w @ snd (process_single_message e m tu bu) @ archive_calls e tu bu m"
proof (cases "fst (process_single_message e m tu bu)")
  case (Inl x)
  then show ?thesis
    by (simp add: handle_message_def Let_def calls_archive archive_calls_def)
next
  case (Inr result)
  then have "\<not> (\<exists>x. fst (process_single_message e m tu bu) = Inl x)" by simp
  then show ?thesis using Inr
    by (simp add: handle_message_def Let_def calls_archive archive_calls_def archive_def)
qed

lemma messages_loop_calls:
  "calls (fst (messages_loop e tu bu ms st))
     = calls (fst st)
       @ concat (map (\<lambda>m. snd (process_single_message e m tu bu) @ archive_calls e tu bu m) ms)"
proof (induction ms arbitrary: st)
  case Nil
  then show ?case by simp
next
  case (Cons m ms)
  obtain w ps where st: "st = (w, ps)" by (cases st)
  show ?case
    by (simp add: Cons.IH st handle_message_calls)
qed

lemma count_list_concat_map_other:
  assumes "\<And>y. y \<in> set ys \<Longrightarrow> count_list (f y) x = 0"
  shows "count_list (concat (map f ys)) x = 0"
  using assms by (induction ys) auto

lemma count_archive_other:
  "m' \<noteq> m \<Longrightarrow>
   count_list (snd (process_single_message e m' tu bu) @ archive_calls e tu bu m') (Modify m) = 0"
  using process_single_message_calls(1) [of m e m' tu bu]
  by (auto simp: archive_calls_def count_list_0_iff)

lemma count_archive_self:
  "count_list (snd (process_single_message e m tu bu) @ archive_calls e tu bu m) (Modify m)
     = length (archive_calls e tu bu m)"
proof -
  have "count_list (snd (process_single_message e m tu bu)) (Modify m) = 0"
    using process_single_message_calls(1) [of m e m tu bu] by (simp add: count_list_0_iff)
  then show ?thesis by (simp add: archive_calls_def)
qed

lemma count_modify_loop:
  assumes "distinct ms" "m \<in> set ms"
  shows "count_list (concat (map (\<lambda>m. snd (process_single_message e m tu bu)
                                      @ archive_calls e tu bu m) ms)) (Modify m)
         = length (archive_calls e tu bu m)"
  using assms
proof (induction ms)
  case Nil
  then show ?case by simp
next
  case (Cons a ms)
  show ?case
  proof (cases "a = m")
    case True
    then have "m \<notin> set ms" using Cons.prems by simp
    then have "count_list (concat (map (\<lambda>m. snd (process_single_message e m tu bu)
                                      @ archive_calls e tu bu m) ms)) (Modify m) = 0"
      by (intro count_list_concat_map_other count_archive_other) auto
    then show ?thesis using True count_archive_self [of e m tu bu] by simp
  next
    case False
    then have "m \<in> set ms" "distinct ms" using Cons.prems by auto
    then show ?thesis using Cons.IH count_archive_other [OF False, of e tu bu] by simp
  qed
qed

lemma no_html_body_skipped:
  assumes "get_message e m = Inr msg"
    and "extract_html_body (b64_utf8 e) msg = Inr None"
  shows "process_single_message e m tu bu = (Inr None, [Get m])"
  using assms by (simp add: process_single_message_def Let_def truthy_def)

text \<open>
  C4, as the code has it.  In a pass over distinct message ids, the archive call is issued
  for every message, whether its processing returned a result, returned nothing or
  raised: once when the processing raised or the first archive call succeeded, and a
  second time when the processing returned and the first archive call itself raised.
  A message without an HTML body has no result and is archived like the others.
\<close>

theorem archive_once_or_twice:
  assumes "distinct ms" and "m \<in> set ms"
  shows "count_list (calls (fst (messages_loop e tu bu ms (w, ps)))) (Modify m)
           = count_list (calls w) (Modify m)
             + (if (\<exists>x. fst (process_single_message e m tu bu) = Inl x) \<or> \<not> modify_raises e m 0
                then 1 else 2)
         \<and> (get_message e m = Inr msg \<and> extract_html_body (b64_utf8 e) msg = Inr None
              \<longrightarrow> fst (process_single_message e m tu bu) = Inr None)"
  using count_modify_loop [OF assms, of e tu bu] no_html_body_skipped [of e m msg tu bu]
  by (simp add: messages_loop_calls archive_calls_def)

lemma example_process:
  "process_single_message (example_env raises) m tu bu = (Inr None, [Get m])"
  by (rule no_html_body_skipped [where msg = "\<lparr>headers = [(''Subject'', ''Trade Executed'')],
                               payload_mimeType = Some ''text/plain'',
                               payload_body_data = ''aGk='', parts = []\<rparr>"])
     (simp_all add: example_env_def extract_html_body_def)

theorem archive_once_or_twice_witness:
  "distinct [''m1'', ''m2''] \<and> ''m2'' \<in> set [''m1'', ''m2'']
   \<and> fst (process_single_message (example_env (\<lambda>i k. False)) ''m2'' None None) = Inr None
   \<and> count_list (calls (fst (messages_loop (example_env (\<lambda>i k. False)) None None [''m1'', ''m2'']
         (\<lparr>mailbox = [(''m1'', {''INBOX'', ''Label_7''}), (''m2'', {''INBOX'', ''Label_7''})],
           calls = []\<rparr>, [])))) (Modify ''m2'') = 1"
proof -
  have d: "distinct [''m1'', ''m2'']" and i: "''m2'' \<in> set [''m1'', ''m2'']" by simp_all
  have p: "fst (process_single_message (example_env (\<lambda>i k. False)) ''m2'' None None) = Inr None"
    by (simp add: example_process)
  have r: "\<not> modify_raises (example_env (\<lambda>i k. False)) ''m2'' 0"
    by (simp add: example_env_def)
  from archive_once_or_twice [OF d i, of "example_env (\<lambda>i k. False)" None None
      "\<lparr>mailbox = [(''m1'', {''INBOX'', ''Label_7''}), (''m2'', {''INBOX'', ''Label_7''})],
           calls = []\<rparr>" "[]"] d i p r
  show ?thesis by simp
qed

text \<open>
  The archive call is not always issued exactly once: when the first call raises, the
  handler of the exception issues it again.
\<close>

theorem archive_twice_counterexample:
  "count_list (calls (fst (messages_loop (example_env (\<lambda>i k. k = 0)) None None [''m1'']
         (\<lparr>mailbox = [(''m1'', {''INBOX'', ''Label_7''})], calls = []\<rparr>, []))))
     (Modify ''m1'') = 2"
  by (simp add: handle_message_def example_process archive_def Let_def)
     (simp add: example_env_def)

lemma handle_message_processed:
  "length (snd (handle_message e tu bu m st)) \<le> Suc (length (snd st))"
  by (auto simp: handle_message_def Let_def split: sum.splits option.splits)

lemma messages_loop_processed:
  "length (snd (messages_loop e tu bu ms st)) \<le> length (snd st) + length ms"
proof (induction ms arbitrary: st)
  case Nil
  then show ?case by simp
next
  case (Cons m ms)
  have "length (snd (messages_loop e tu bu ms (handle_message e tu bu m st)))
          \<le> length (snd (handle_message e tu bu m st)) + length ms"
    by (rule Cons.IH)
  also have "\<dots> \<le> Suc (length (snd st)) + length ms"
    using handle_message_processed [of e tu bu m st] by simp
  finally show ?case by simp
qed

lemma archive_mailbox_other:
  assumes "(i, ls) \<in> set (mailbox w)" and "i \<noteq> m"
  shows "(i, ls) \<in> set (mailbox (snd (archive e m k w)))"
  using assms by (force simp: archive_def Let_def)

lemma handle_message_mailbox_other:
  assumes "(i, ls) \<in> set (mailbox (fst st))" and "i \<noteq> m"
  shows "(i, ls) \<in> set (mailbox (fst (handle_message e tu bu m st)))"
proof -
  let ?r = "process_single_message e m tu bu"
  let ?w1 = "(fst st)\<lparr>calls := calls (fst st) @ snd ?r\<rparr>"
  have a: "(i, ls) \<in> set (mailbox ?w1)" using assms(1) by simp
  have b: "(i, ls) \<in> set (mailbox (snd (archive e m 0 ?w1)))"
    using a assms(2) by (rule archive_mailbox_other)
  have c: "(i, ls) \<in> set (mailbox (snd (archive e m 1 (snd (archive e m 0 ?w1)))))"
    using b assms(2) by (rule archive_mailbox_other)
  show ?thesis
    using b c by (cases "fst ?r") (simp_all add: handle_message_def Let_def)
qed

lemma messages_loop_mailbox_other:
  assumes "(i, ls) \<in> set (mailbox (fst st))" and "i \<notin> set ms"
  shows "(i, ls) \<in> set (mailbox (fst (messages_loop e tu bu ms st)))"
  using assms
proof (induction ms arbitrary: st)
  case Nil
  then show ?case by simp
next
  case (Cons m ms)
  then have "(i, ls) \<in> set (mailbox (fst (handle_message e tu bu m st)))"
    by (intro handle_message_mailbox_other) auto
  then show ?case using Cons by simp
qed

lemma messages_loop_new_calls:
  assumes "i \<notin> set ms"
  shows "Get i \<notin> set (concat (map (\<lambda>m. snd (process_single_message e m tu bu)
                                      @ archive_calls e tu bu m) ms))"
    and "Modify i \<notin> set (concat (map (\<lambda>m. snd (process_single_message e m tu bu)
                                      @ archive_calls e tu bu m) ms))"
  using assms process_single_message_calls [of i e _ tu bu]
  by (auto simp: archive_calls_def split: if_splits)

lemma length_list_messages: "length (list_messages w ls n) \<le> n"
  by (simp add: list_messages_def)

text \<open>
  C10.  A pass lists at most 50 messages, so it reports at most 50 processed messages;
  it only adds to the log of calls, and a message that the listing did not return is
  neither fetched nor archived and keeps its labels.
\<close>

theorem process_email_at_most_50:
  assumes "labels e = Inr ls" and "get_label_id ls ''DOO Transaction'' = Some lid"
    and "process_email e tu bu w = (r, w')"
  shows "length (list_messages w [lid, ''INBOX''] 50) \<le> 50
       \<and> (\<forall>processed. r = Inr (StatusOk processed) \<longrightarrow> length processed \<le> 50)
       \<and> take (length (calls w)) (calls w') = calls w
       \<and> (\<forall>i. i \<notin> set (list_messages w [lid, ''INBOX''] 50) \<longrightarrow>
              Get i \<notin> set (drop (length (calls w)) (calls w'))
              \<and> Modify i \<notin> set (drop (length (calls w)) (calls w'))
              \<and> (\<forall>lbls. (i, lbls) \<in> set (mailbox w) \<longrightarrow> (i, lbls) \<in> set (mailbox w')))"
proof -
  let ?ms = "list_messages w [lid, ''INBOX''] 50"
  let ?st = "messages_loop e tu bu ?ms (w, [])"
  have len: "length ?ms \<le> 50" by (rule length_list_messages)
  consider (run) "lid \<noteq> []" "list_raises e = None" "?ms \<noteq> []"
    | (idle) "lid = [] \<or> list_raises e \<noteq> None \<or> ?ms = []"
    by blast
  then show ?thesis
  proof cases
    case run
    then have res: "r = Inr (StatusOk (snd ?st))" "w' = fst ?st"
      using assms by (auto simp: process_email_def Let_def truthy_def)
    have p: "length (snd ?st) \<le> 50"
      using messages_loop_processed [of e tu bu ?ms "(w, [])"] len by simp
    have c: "calls w' = calls w @ concat (map (\<lambda>m. snd (process_single_message e m tu bu)
                                      @ archive_calls e tu bu m) ?ms)"
      by (simp add: res messages_loop_calls)
    have m: "(i, lbls) \<in> set (mailbox w')" if "i \<notin> set ?ms" "(i, lbls) \<in> set (mailbox w)"
      for i lbls
      unfolding res using that messages_loop_mailbox_other [of i lbls "(w, [])" ?ms e tu bu]
      by simp
    show ?thesis
      using len p res(1) c m messages_loop_new_calls [of _ ?ms e tu bu] by auto
  next
    case idle
    then have "w' = w" "\<forall>processed. r \<noteq> Inr (StatusOk processed)"
      using assms
      by (auto simp: process_email_def Let_def truthy_def split: option.splits if_splits)
    then show ?thesis using len by simp
  qed
qed

theorem process_email_at_most_50_witness:
  "labels (example_env (\<lambda>i k. False)) = Inr [(''Label_7'', ''DOO Transaction'')]
   \<and> get_label_id [(''Label_7'', ''DOO Transaction'')] ''DOO Transaction'' = Some ''Label_7''
   \<and> list_messages \<lparr>mailbox = [(''m1'', {''INBOX'', ''Label_7''}), (''m9'', {''INBOX''})],
                       calls = []\<rparr> [''Label_7'', ''INBOX''] 50 = [''m1'']
   \<and> (''m9'', {''INBOX''}) \<in> set (mailbox (snd (process_email (example_env (\<lambda>i k. False))
         None None \<lparr>mailbox = [(''m1'', {''INBOX'', ''Label_7''}), (''m9'', {''INBOX''})],
                       calls = []\<rparr>)))"
proof -
  let ?e = "example_env (\<lambda>i k. False)"
  let ?w = "\<lparr>mailbox = [(''m1'', {''INBOX'', ''Label_7''}), (''m9'', {''INBOX''})], calls = []\<rparr>"
  have a: "labels ?e = Inr [(''Label_7'', ''DOO Transaction'')]"
    by (simp add: example_env_def)
  have b: "get_label_id [(''Label_7'', ''DOO Transaction'')] ''DOO Transaction'' = Some ''Label_7''"
    by simp
  have c: "process_email ?e None None ?w
             = (fst (process_email ?e None None ?w), snd (process_email ?e None None ?w))"
    by simp
  have l: "list_messages ?w [''Label_7'', ''INBOX''] 50 = [''m1'']"
    by (simp add: list_messages_def)
  have "''m9'' \<notin> set (list_messages ?w [''Label_7'', ''INBOX''] 50)"
    by (simp add: l)
  moreover have "(''m9'', {''INBOX''}) \<in> set (mailbox ?w)" by simp
  ultimately have "(''m9'', {''INBOX''}) \<in> set (mailbox (snd (process_email ?e None None ?w)))"
    using process_email_at_most_50 [OF a b c] by blast
  with a b l show ?thesis by blast
qed

section \<open>The extractors return\<close>

lemma rsplit1_not_Nil: "rsplit1 sep s \<noteq> []"
  by (simp add: rsplit1_def split: option.splits prod.splits)

lemma py_last_rsplit1: "\<exists>x. py_last (rsplit1 sep s) = Inr x"
  by (simp add: py_last_def rsplit1_not_Nil)

lemma extract_section_returns: "\<exists>v. extract_section text label next_label = Inr v"
  by (cases "search_between (label @ '':'') (next_label @ '':'') text")
     (simp_all add: extract_section_def Let_def then_do_def group1_def)

lemma parse_trade_block_returns: "\<exists>v. parse_trade_block text = Inr v"
proof (cases "search_team text")
  case None
  then show ?thesis by (simp add: parse_trade_block_def)
next
  case (Some g)
  obtain x where x: "py_last (rsplit1 '' - '' (strip g)) = Inr x"
    using py_last_rsplit1 by blast
  obtain a where a: "extract_section text ''Players Offered'' ''Positions Offered'' = Inr a"
    using extract_section_returns by blast
  obtain b where b: "extract_section text ''Positions Offered'' ''Stats Offered'' = Inr b"
    using extract_section_returns by blast
  obtain c where c: "extract_section text ''Stats Offered'' ''Positions Needed'' = Inr c"
    using extract_section_returns by blast
  obtain d where d: "extract_section text ''Positions Needed'' ''Stats Needed'' = Inr d"
    using extract_section_returns by blast
  show ?thesis
    unfolding parse_trade_block_def Let_def Some
    by (cases "search_between ''Stats Needed:'' ''Comment:'' text"; cases "search_comment text")
       (simp_all add: then_do_def group1_def x a b c d del: search_team.simps)
qed

lemma parse_trade_returns:
  assumes "prs html = Inr soup"
  shows "\<exists>v. parse_trade prs html = Inr v"
proof (cases "first_with_class ''darkmode-text'' soup")
  case None
  then show ?thesis using assms by (simp add: parse_trade_def then_do_def)
next
  case (Some content_div)
  then show ?thesis using assms
    by (cases "search_executed (trade_full_text content_div)")
       (simp_all add: parse_trade_def Let_def then_do_def group1_def)
qed

lemma parse_trade_raises: "prs html = Inl x \<Longrightarrow> parse_trade prs html = Inl x"
  by (simp add: parse_trade_def then_do_def)

lemma parse_claim_returns: "\<exists>v. parse_claim rc text = Inr v"
  by (cases "rc text")
     (auto simp: parse_claim_def Let_def then_do_def group1_def split: prod.splits)

lemma parse_drop_returns: "\<exists>v. parse_drop rd text = Inr v"
  by (cases "rd text") (simp_all add: parse_drop_def Let_def then_do_def group1_def)

lemma parse_draft_returns: "\<exists>v. parse_draft rf text = Inr v"
  by (cases "rf text")
     (auto simp: parse_draft_def Let_def then_do_def group1_def split: prod.splits)

text \<open>
  C3, as the code has it.  The Claim, Drop, Block and Draft extractors return a value for
  every text and every answer of the pattern search: a structured record, the raw text,
  or no result.  No \<^verbatim>\<open>group\<close> is taken of a search that found nothing, and the last piece
  of \<^verbatim>\<open>rsplit\<close> always exists.  The Trade extractor returns a value whenever the HTML
  parser returns a document; it calls the parser with no handler, so an exception of the
  parser is the outcome of the extractor.
\<close>

theorem extractors_return_unless_parser_raises:
  "(\<exists>v. parse_claim rc text = Inr v) \<and> (\<exists>v. parse_drop rd text = Inr v)
   \<and> (\<exists>v. parse_trade_block text = Inr v) \<and> (\<exists>v. parse_draft rf text = Inr v)
   \<and> (prs html = Inr soup \<longrightarrow> (\<exists>v. parse_trade prs html = Inr v))
   \<and> (prs html = Inl x \<longrightarrow> parse_trade prs html = Inl x)"
  using parse_claim_returns parse_drop_returns parse_trade_block_returns parse_draft_returns
    parse_trade_returns parse_trade_raises by blast

text \<open>
  On the source \<^verbatim>\<open>'a\ud800b'\<close>, a str with a surrogate code point, the parser raises
  UnicodeEncodeError and so does the Trade extractor.
\<close>

theorem parse_trade_raises_counterexample:
  "parse_trade (refusing_parser (\<lambda>h. [])) [97, 55296, 98] = Inl UnicodeEncodeError"
  by (simp add: parse_trade_def refusing_parser_def surrogate_def then_do_def)

lemma ex_claim:
  "parse_claim (\<lambda>t. Some ('' Grand Salamis '', ''Trea Turner'', ''SS'', ''PHI''))
       ''*Grand Salamis*''
     = Inr (Some (ClaimData ''Grand Salamis'' ''Trea Turner SS'' ''PHI''))"
  by (simp add: parse_claim_def then_do_def group1_def strip_def lstrip_def rstrip_def
      isspace_def)

lemma ex_drop:
  "parse_drop (\<lambda>t. Some (''Turner, Trea'' @ [NL] @ '' Smith, Cam '' @ [NL])) ''players''
     = Inr (Some (DropData [''Turner, Trea'', ''Smith, Cam'']))"
  by (simp add: parse_drop_def then_do_def group1_def strip_def lstrip_def rstrip_def
      isspace_def split_def)

lemma ex_draft:
  "parse_draft (\<lambda>t. Some (''3'', ''7'', ''Cam  Smith'', ''Grand Salamis'')) ''pick''
     = Inr (Some (DraftData ''3'' ''7'' ''Cam Smith'' ''Grand Salamis''))"
  by (simp add: parse_draft_def then_do_def group1_def strip_def lstrip_def rstrip_def
      isspace_def)

lemma ex_block:
  "parse_trade_block ''- Grand Salamis has made changes to the Trade Block''
     = Inr (Some \<lparr>team = ''Grand Salamis'', players_offered = [],
                  positions_offered = ''(None specified)'',
                  stats_offered = ''(None specified)'',
                  positions_needed = ''(None specified)'',
                  stats_needed = ''(None specified)'', comment = []\<rparr>)"
  by code_simp

lemma trade_example_text:
  "trade_full_text (Tag ''td'' [''darkmode-text'']
       [Text ''The trade  has been executed.'', Tag ''br'' [] [], Tag ''br'' [] [],
        Tag ''br'' [] [], Text ''A gets B. Note that you can adjust''])
   = ''The trade has been executed.'' @ [NL, NL] @ ''A gets B. Note that you can adjust''"
  by (simp add: trade_full_text_def get_text_def split_def strip_def lstrip_def rstrip_def
      isspace_def)

lemma trade_example_search:
  "search_executed
     (''The trade has been executed.'' @ [NL, NL] @ ''A gets B. Note that you can adjust'')
   = Some ''A gets B. ''"
  by (simp add: search_executed_def isspace_def)

lemma trade_example_details: "strip (sub_click_here (strip ''A gets B. '')) = ''A gets B.''"
  by (simp add: strip_def lstrip_def rstrip_def isspace_def)

lemma trade_example:
  "parse_trade (refusing_parser (\<lambda>h. [Tag ''td'' [''darkmode-text'']
       [Text ''The trade  has been executed.'', Tag ''br'' [] [], Tag ''br'' [] [],
        Tag ''br'' [] [], Text ''A gets B. Note that you can adjust'']]))
       [60, 116, 100, 62]
     = Inr (Some (TradeData ''A gets B.''))"
proof -
  have "refusing_parser (\<lambda>h. [Tag ''td'' [''darkmode-text'']
       [Text ''The trade  has been executed.'', Tag ''br'' [] [], Tag ''br'' [] [],
        Tag ''br'' [] [], Text ''A gets B. Note that you can adjust'']]) [60, 116, 100, 62]
     = Inr [Tag ''td'' [''darkmode-text'']
       [Text ''The trade  has been executed.'', Tag ''br'' [] [], Tag ''br'' [] [],
        Tag ''br'' [] [], Text ''A gets B. Note that you can adjust'']]"
    by (simp add: refusing_parser_def surrogate_def)
  then show ?thesis
    unfolding parse_trade_def
    by (simp add: then_do_def group1_def trade_example_text trade_example_search
        trade_example_details del: append.simps)
qed

theorem extractors_return_unless_parser_raises_witness:
  "parse_claim (\<lambda>t. Some ('' Grand Salamis '', ''Trea Turner'', ''SS'', ''PHI''))
       ''*Grand Salamis*''
     = Inr (Some (ClaimData ''Grand Salamis'' ''Trea Turner SS'' ''PHI''))
   \<and> parse_drop (\<lambda>t. Some (''Turner, Trea'' @ [NL] @ '' Smith, Cam '' @ [NL])) ''players''
     = Inr (Some (DropData [''Turner, Trea'', ''Smith, Cam'']))
   \<and> parse_draft (\<lambda>t. Some (''3'', ''7'', ''Cam  Smith'', ''Grand Salamis'')) ''pick''
     = Inr (Some (DraftData ''3'' ''7'' ''Cam Smith'' ''Grand Salamis''))
   \<and> parse_trade_block ''- Grand Salamis has made changes to the Trade Block''
     = Inr (Some \<lparr>team = ''Grand Salamis'', players_offered = [],
                  positions_offered = ''(None specified)'',
                  stats_offered = ''(None specified)'',
                  positions_needed = ''(None specified)'',
                  stats_needed = ''(None specified)'', comment = []\<rparr>)
   \<and> parse_trade (refusing_parser (\<lambda>h. [Tag ''td'' [''darkmode-text'']
       [Text ''The trade  has been executed.'', Tag ''br'' [] [], Tag ''br'' [] [],
        Tag ''br'' [] [], Text ''A gets B. Note that you can adjust'']]))
       [60, 116, 100, 62]
     = Inr (Some (TradeData ''A gets B.''))
   \<and> refusing_parser (\<lambda>h. []) [97, 55296, 98] = Inl UnicodeEncodeError
   \<and> parse_trade (refusing_parser (\<lambda>h. [])) [97, 55296, 98] = Inl UnicodeEncodeError
   \<and> refusing_parser (\<lambda>h. []) [60, 112, 62] = Inr []
   \<and> (\<exists>v. parse_trade (refusing_parser (\<lambda>h. [])) [60, 112, 62] = Inr v)"
proof -
  have a: "refusing_parser (\<lambda>h. []) [97, 55296, 98] = Inl UnicodeEncodeError"
    by (simp add: refusing_parser_def surrogate_def)
  have b: "refusing_parser (\<lambda>h. []) [60, 112, 62] = Inr []"
    by (simp add: refusing_parser_def surrogate_def)
  have c: "parse_trade (refusing_parser (\<lambda>h. [])) [97, 55296, 98] = Inl UnicodeEncodeError"
    using extractors_return_unless_parser_raises
      [where prs = "refusing_parser (\<lambda>h. [])" and html = "[97, 55296, 98]"
         and x = UnicodeEncodeError] a
    by blast
  have d: "\<exists>v. parse_trade (refusing_parser (\<lambda>h. [])) [60, 112, 62] = Inr v"
    using extractors_return_unless_parser_raises
      [where prs = "refusing_parser (\<lambda>h. [])" and html = "[60, 112, 62]" and soup = "[]"] b
    by blast
  from a b c d ex_claim ex_drop ex_draft ex_block trade_example show ?thesis by blast
qed

section \<open>Body text\<close>

lemma find_app:
  "List.find P (xs @ ys) = (case List.find P xs of None \<Rightarrow> List.find P ys | Some x \<Rightarrow> Some x)"
  by (induction xs) auto

lemma first_with_class_find:
  "first_with_class c ns = List.find (\<lambda>x. c \<in> set (classes x)) (descendants ns)"
  by (induction c ns rule: first_with_class.induct) (auto simp: find_app split: option.splits)

lemma strings_replace_br: "strings (replace_br ns) = br_strings ns"
  by (induction ns rule: replace_br.induct) auto

lemma collapse_blank_acc:
  "collapse_blank lines result prev = result @ collapse_blank lines [] prev"
proof (induction lines arbitrary: result prev)
  case Nil
  then show ?case by simp
next
  case (Cons l ls)
  show ?case
  proof (cases "l = []")
    case True
    show ?thesis
    proof (cases prev)
      case True
      with \<open>l = []\<close> show ?thesis using Cons.IH [of result True] by simp
    next
      case False
      have "collapse_blank ls (result @ [[]]) True = (result @ [[]]) @ collapse_blank ls [] True"
        by (rule Cons.IH)
      moreover have "collapse_blank ls [[]] True = [[]] @ collapse_blank ls [] True"
        by (rule Cons.IH)
      ultimately show ?thesis using False \<open>l = []\<close> by simp
    qed
  next
    case False
    have "collapse_blank ls (result @ [l]) False = (result @ [l]) @ collapse_blank ls [] False"
      by (rule Cons.IH)
    moreover have "collapse_blank ls [l] False = [l] @ collapse_blank ls [] False"
      by (rule Cons.IH)
    ultimately show ?thesis using False by simp
  qed
qed

lemma collapse_blank_Cons:
  "collapse_blank (l # ls) [] prev =
     (if l = [] then (if prev then collapse_blank ls [] True else [] # collapse_blank ls [] True)
      else l # collapse_blank ls [] False)"
proof (cases "l = []")
  case True
  have "collapse_blank ls [[]] True = [[]] @ collapse_blank ls [] True"
    by (rule collapse_blank_acc)
  then show ?thesis using True by simp
next
  case False
  have "collapse_blank ls [l] False = [l] @ collapse_blank ls [] False"
    by (rule collapse_blank_acc)
  then show ?thesis using False by simp
qed

lemma adjacent_empty_Cons:
  "adjacent_empty (a # xs) = ((a = [] \<and> xs \<noteq> [] \<and> hd xs = []) \<or> adjacent_empty xs)"
  by (cases xs) auto

lemma collapse_blank_no_adjacent:
  "\<not> adjacent_empty (collapse_blank ls [] prev)
   \<and> (prev \<longrightarrow> collapse_blank ls [] prev = [] \<or> hd (collapse_blank ls [] prev) \<noteq> [])"
proof (induction ls arbitrary: prev)
  case Nil
  then show ?case by simp
next
  case (Cons l ls)
  show ?case
    using Cons.IH [of True] Cons.IH [of False]
    by (auto simp: collapse_blank_Cons adjacent_empty_Cons simp del: collapse_blank.simps(2))
qed

lemma collapse_blank_keeps_text:
  "filter (\<lambda>l. l \<noteq> []) (collapse_blank ls [] prev) = filter (\<lambda>l. l \<noteq> []) ls"
  by (induction ls arbitrary: prev)
     (auto simp: collapse_blank_Cons simp del: collapse_blank.simps(2))

lemma collapse_blank_fixed:
  "\<not> adjacent_empty ls \<Longrightarrow> (prev \<Longrightarrow> ls = [] \<or> hd ls \<noteq> [])
     \<Longrightarrow> collapse_blank ls [] prev = ls"
proof (induction ls arbitrary: prev)
  case Nil
  then show ?case by simp
next
  case (Cons l ls)
  have ne: "\<not> adjacent_empty ls" using Cons.prems(1) by (simp add: adjacent_empty_Cons)
  show ?case
  proof (cases "l = []")
    case True
    then have "\<not> prev" using Cons.prems(2) by auto
    moreover have "ls = [] \<or> hd ls \<noteq> []"
      using Cons.prems(1) True by (auto simp: adjacent_empty_Cons)
    then have "collapse_blank ls [] True = ls" using ne by (intro Cons.IH) auto
    ultimately show ?thesis using True by (simp add: collapse_blank_Cons del: collapse_blank.simps(2))
  next
    case False
    have "collapse_blank ls [] False = ls" using ne by (intro Cons.IH) auto
    then show ?thesis using False by (simp add: collapse_blank_Cons del: collapse_blank.simps(2))
  qed
qed

lemma join_empty_separator: "join [] xs = concat xs"
  by (induction "[] :: string" xs rule: join.induct) auto

lemma upt_Suc_shift: "[0..<Suc n] = 0 # map Suc [0..<n]"
  by (simp add: upt_conv_Cons map_Suc_upt del: upt_Suc)

lemma kept_lines_step:
  "map (\<lambda>i. (l # ls) ! i)
     (filter (\<lambda>i. \<not> ((x # l # ls) ! i = [] \<and> (l # ls) ! i = [])) [0..<length (l # ls)])
   = (if x = [] \<and> l = [] then [] else [l])
     @ map (\<lambda>i. ls ! i) (filter (\<lambda>i. \<not> ((l # ls) ! i = [] \<and> ls ! i = [])) [0..<length ls])"
  by (simp add: upt_Suc_shift filter_map comp_def del: upt_Suc)

lemma collapse_blank_kept:
  "(prev \<longleftrightarrow> x = []) \<Longrightarrow>
   collapse_blank ls [] prev
     = map (\<lambda>i. ls ! i) (filter (\<lambda>i. \<not> ((x # ls) ! i = [] \<and> ls ! i = [])) [0..<length ls])"
proof (induction ls arbitrary: prev x)
  case Nil
  then show ?case by simp
next
  case (Cons l ls)
  have t: "collapse_blank ls [] True
     = map (\<lambda>i. ls ! i) (filter (\<lambda>i. \<not> (([] # ls) ! i = [] \<and> ls ! i = [])) [0..<length ls])"
    by (rule Cons.IH) simp
  have f: "collapse_blank ls [] False
     = map (\<lambda>i. ls ! i) (filter (\<lambda>i. \<not> ((l # ls) ! i = [] \<and> ls ! i = [])) [0..<length ls])"
    if "l \<noteq> []"
    using that by (intro Cons.IH) simp
  show ?case
  proof (cases "l = []")
    case True
    then show ?thesis using Cons.prems t
      by (simp only: kept_lines_step collapse_blank_Cons) auto
  next
    case False
    then show ?thesis using f
      by (simp only: kept_lines_step collapse_blank_Cons) auto
  qed
qed

lemma collapse_blank_single_blanks: "collapse_blank ls [] False = single_blanks ls"
proof -
  have "collapse_blank ls [] False
     = map (\<lambda>i. ls ! i) (filter (\<lambda>i. \<not> ((''x'' # ls) ! i = [] \<and> ls ! i = [])) [0..<length ls])"
    by (rule collapse_blank_kept) simp
  also have "\<dots> = single_blanks ls"
    unfolding single_blanks_def
  proof (rule arg_cong [where f = "map (\<lambda>i. ls ! i)"], rule filter_cong [OF refl])
    fix i
    show "(\<not> ((''x'' # ls) ! i = [] \<and> ls ! i = []))
            = (\<not> (ls ! i = [] \<and> 0 < i \<and> ls ! (i - 1) = []))"
      by (cases i) auto
  qed
  finally show ?thesis .
qed

lemma trade_full_text_single_blanks:
  "trade_full_text d
     = join [NL] (single_blanks (map (\<lambda>line. squeeze_spaces (strip line))
                    (split [NL] (concat (br_strings (children d))))))"
  by (simp add: trade_full_text_def get_text_def Let_def join_empty_separator
      strings_replace_br collapse_blank_single_blanks)

lemma extract_text_content_cases:
  assumes "prs html = Inr soup"
  shows "first_with_class ''darkmode-text'' soup = Some d \<Longrightarrow>
           extract_text_content prs html = Inr (strip (join '' '' (br_strings (children d))))"
    and "first_with_class ''darkmode-text'' soup = None \<Longrightarrow>
           extract_text_content prs html = Inr (strip (join '' '' (strings soup)))"
  using assms
  by (simp_all add: extract_text_content_def then_do_def get_text_def strings_replace_br)

lemma parse_trade_cases:
  assumes "prs html = Inr soup"
  shows "first_with_class ''darkmode-text'' soup = Some d \<Longrightarrow>
           parse_trade prs html
             = Inr (map_option (\<lambda>g. TradeData (strip (sub_click_here (strip g))))
                      (search_executed (trade_full_text d)))"
    and "first_with_class ''darkmode-text'' soup = None \<Longrightarrow> parse_trade prs html = Inr None"
proof -
  show "parse_trade prs html
          = Inr (map_option (\<lambda>g. TradeData (strip (sub_click_here (strip g))))
                   (search_executed (trade_full_text d)))"
    if "first_with_class ''darkmode-text'' soup = Some d"
    using assms that
    by (cases "search_executed (trade_full_text d)")
       (simp_all add: parse_trade_def then_do_def group1_def Let_def)
  show "parse_trade prs html = Inr None" if "first_with_class ''darkmode-text'' soup = None"
    using assms that by (simp add: parse_trade_def then_do_def)
qed

text \<open>
  C5, as the code has it.  The secondary extractor \<^verbatim>\<open>_extract_text_content\<close> takes the
  first element of the document that has the class \<^verbatim>\<open>darkmode-text\<close>, and returns its
  strings, with a newline for each line-break element, joined by spaces and stripped; when
  no element has the class it returns the text of the whole document in the same way.  It
  leaves blank lines as they are.  The blank lines are collapsed by the Trade extractor:
  the text that it searches is the text of the container, with a newline for each
  line-break element, cut into lines, each line stripped and its runs of spaces squeezed,
  without each empty line that comes right after an empty line.  So a run of blank lines
  becomes one blank line, a single blank line stays, and every other line stays in its
  place.  The Trade extractor has no fallback: without the container it returns no result.
\<close>

theorem body_text_extraction:
  "first_with_class ''darkmode-text'' soup
     = List.find (\<lambda>x. ''darkmode-text'' \<in> set (classes x)) (descendants soup)
   \<and> (prs html = Inr soup \<and> first_with_class ''darkmode-text'' soup = Some d \<longrightarrow>
        extract_text_content prs html = Inr (strip (join '' '' (br_strings (children d))))
        \<and> parse_trade prs html
            = Inr (map_option (\<lambda>g. TradeData (strip (sub_click_here (strip g))))
                     (search_executed (trade_full_text d))))
   \<and> (prs html = Inr soup \<and> first_with_class ''darkmode-text'' soup = None \<longrightarrow>
        extract_text_content prs html = Inr (strip (join '' '' (strings soup)))
        \<and> parse_trade prs html = Inr None)
   \<and> (prs html = Inl x \<longrightarrow> extract_text_content prs html = Inl x)
   \<and> trade_full_text d
       = join [NL] (single_blanks (map (\<lambda>line. squeeze_spaces (strip line))
                      (split [NL] (concat (br_strings (children d))))))
   \<and> \<not> adjacent_empty (single_blanks lines)
   \<and> filter (\<lambda>l. l \<noteq> []) (single_blanks lines) = filter (\<lambda>l. l \<noteq> []) lines
   \<and> (\<not> adjacent_empty lines \<longrightarrow> single_blanks lines = lines)"
proof (intro conjI impI)
  show "first_with_class ''darkmode-text'' soup
     = List.find (\<lambda>x. ''darkmode-text'' \<in> set (classes x)) (descendants soup)"
    by (rule first_with_class_find)
  show "extract_text_content prs html = Inr (strip (join '' '' (br_strings (children d))))"
    if "prs html = Inr soup \<and> first_with_class ''darkmode-text'' soup = Some d"
    using that extract_text_content_cases(1) by blast
  show "parse_trade prs html
            = Inr (map_option (\<lambda>g. TradeData (strip (sub_click_here (strip g))))
                     (search_executed (trade_full_text d)))"
    if "prs html = Inr soup \<and> first_with_class ''darkmode-text'' soup = Some d"
    using that parse_trade_cases(1) by blast
  show "extract_text_content prs html = Inr (strip (join '' '' (strings soup)))"
    if "prs html = Inr soup \<and> first_with_class ''darkmode-text'' soup = None"
    using that extract_text_content_cases(2) by blast
  show "parse_trade prs html = Inr None"
    if "prs html = Inr soup \<and> first_with_class ''darkmode-text'' soup = None"
    using that parse_trade_cases(2) by blast
  show "extract_text_content prs html = Inl x" if "prs html = Inl x"
    using that by (simp add: extract_text_content_def then_do_def)
  show "trade_full_text d
       = join [NL] (single_blanks (map (\<lambda>line. squeeze_spaces (strip line))
                      (split [NL] (concat (br_strings (children d))))))"
    by (rule trade_full_text_single_blanks)
  show "\<not> adjacent_empty (single_blanks lines)"
    using collapse_blank_no_adjacent [of lines False]
    by (simp add: collapse_blank_single_blanks)
  show "filter (\<lambda>l. l \<noteq> []) (single_blanks lines) = filter (\<lambda>l. l \<noteq> []) lines"
    using collapse_blank_keeps_text [of lines False]
    by (simp add: collapse_blank_single_blanks)
  show "single_blanks lines = lines" if "\<not> adjacent_empty lines"
  proof -
    have "collapse_blank lines [] False = lines" using that by (intro collapse_blank_fixed) auto
    then show ?thesis by (simp add: collapse_blank_single_blanks)
  qed
qed

theorem body_text_extraction_witness:
  "refusing_parser (\<lambda>h. [Tag ''table'' []
       [Tag ''td'' [''darkmode-text''] [Text ''Hello'', Tag ''br'' [] [], Text ''World'']]])
     [60, 116, 100, 62]
     = Inr [Tag ''table'' []
       [Tag ''td'' [''darkmode-text''] [Text ''Hello'', Tag ''br'' [] [], Text ''World'']]]
   \<and> first_with_class ''darkmode-text''
       [Tag ''table'' []
         [Tag ''td'' [''darkmode-text''] [Text ''Hello'', Tag ''br'' [] [], Text ''World'']]]
     = Some (Tag ''td'' [''darkmode-text''] [Text ''Hello'', Tag ''br'' [] [], Text ''World''])
   \<and> extract_text_content
        (refusing_parser (\<lambda>h. [Tag ''table'' []
          [Tag ''td'' [''darkmode-text''] [Text ''Hello'', Tag ''br'' [] [], Text ''World'']]]))
        [60, 116, 100, 62]
       = Inr (''Hello '' @ [NL] @ '' World'')
   \<and> refusing_parser (\<lambda>h. [Tag ''p'' [] [Text '' plain '']]) [60, 112, 62]
       = Inr [Tag ''p'' [] [Text '' plain '']]
   \<and> first_with_class ''darkmode-text'' [Tag ''p'' [] [Text '' plain '']] = None
   \<and> extract_text_content (refusing_parser (\<lambda>h. [Tag ''p'' [] [Text '' plain '']])) [60, 112, 62]
       = Inr ''plain''
   \<and> parse_trade (refusing_parser (\<lambda>h. [Tag ''p'' [] [Text '' plain '']])) [60, 112, 62]
       = Inr None
   \<and> refusing_parser (\<lambda>h. []) [97, 55296, 98] = Inl UnicodeEncodeError
   \<and> extract_text_content (refusing_parser (\<lambda>h. [])) [97, 55296, 98] = Inl UnicodeEncodeError
   \<and> \<not> adjacent_empty [''a'', [], ''b'']
   \<and> single_blanks [''a'', [], ''b''] = [''a'', [], ''b'']
   \<and> single_blanks [''a'', [], [], [], ''b''] = [''a'', [], ''b'']"
proof -
  let ?td = "Tag ''td'' [''darkmode-text''] [Text ''Hello'', Tag ''br'' [] [], Text ''World'']"
  let ?p1 = "refusing_parser (\<lambda>h. [Tag ''table'' [] [?td]])"
  let ?p2 = "refusing_parser (\<lambda>h. [Tag ''p'' [] [Text '' plain '']])"
  let ?p3 = "refusing_parser (\<lambda>h. [])"
  have r1: "?p1 [60, 116, 100, 62] = Inr [Tag ''table'' [] [?td]]"
    by (simp add: refusing_parser_def surrogate_def)
  have r2: "?p2 [60, 112, 62] = Inr [Tag ''p'' [] [Text '' plain '']]"
    by (simp add: refusing_parser_def surrogate_def)
  have r3: "?p3 [97, 55296, 98] = Inl UnicodeEncodeError"
    by (simp add: refusing_parser_def surrogate_def)
  have a: "first_with_class ''darkmode-text'' [Tag ''table'' [] [?td]] = Some ?td" by simp
  have b: "first_with_class ''darkmode-text'' [Tag ''p'' [] [Text '' plain '']] = None" by simp
  have c: "\<not> adjacent_empty [''a'', [], ''b'']" by simp
  have s1: "strip (join '' '' (br_strings (children ?td))) = ''Hello '' @ [NL] @ '' World''"
    by (simp add: strip_def lstrip_def rstrip_def isspace_def)
  have s2: "strip (join '' '' (strings [Tag ''p'' [] [Text '' plain '']])) = ''plain''"
    by (simp add: strip_def lstrip_def rstrip_def isspace_def)
  have s3: "single_blanks [''a'', [], [], [], ''b''] = [''a'', [], ''b'']"
    by (simp add: single_blanks_def upt_conv_Cons del: upt_Suc)
  note t1 = body_text_extraction [where prs = ?p1 and html = "[60, 116, 100, 62]"
      and soup = "[Tag ''table'' [] [?td]]" and d = ?td and lines = "[''a'', [], ''b'']"]
  note t2 = body_text_extraction [where prs = ?p2 and html = "[60, 112, 62]"
      and soup = "[Tag ''p'' [] [Text '' plain '']]" and d = ?td and lines = "[''a'', [], ''b'']"]
  note t3 = body_text_extraction [where prs = ?p3 and html = "[97, 55296, 98]"
      and x = UnicodeEncodeError and d = ?td and lines = "[''a'', [], ''b'']"]
  have 1: "extract_text_content ?p1 [60, 116, 100, 62] = Inr (''Hello '' @ [NL] @ '' World'')"
    using t1 r1 a s1 by simp
  have 2: "extract_text_content ?p2 [60, 112, 62] = Inr ''plain''"
    and 3: "parse_trade ?p2 [60, 112, 62] = Inr None"
    using t2 r2 b s2 by simp_all
  have 4: "extract_text_content ?p3 [97, 55296, 98] = Inl UnicodeEncodeError"
    using t3 r3 by blast
  have 5: "single_blanks [''a'', [], ''b''] = [''a'', [], ''b'']"
    using t1 c by blast
  from r1 r2 r3 a b c 1 2 3 4 5 s3 show ?thesis by blast
qed

text \<open>
  Three line breaks in a row leave two blank lines in a row in the text of the secondary
  extractor, and the extractor that does collapse them gives no result for a document
  without the container.
\<close>

theorem extract_text_content_counterexample:
  "extract_text_content
     (refusing_parser (\<lambda>h. [Tag ''td'' [''darkmode-text'']
        [Text ''a'', Tag ''br'' [] [], Tag ''br'' [] [], Tag ''br'' [] [], Text ''b'']]))
     [60, 116, 100, 62]
     = Inr (''a '' @ [NL] @ '' '' @ [NL] @ '' '' @ [NL] @ '' b'')
   \<and> adjacent_empty (map strip (split [NL] (''a '' @ [NL] @ '' '' @ [NL] @ '' '' @ [NL] @ '' b'')))
   \<and> parse_trade
       (refusing_parser (\<lambda>h. [Tag ''p'' [] [Text ''has been executed. x Note that you can adjust'']]))
       [60, 112, 62] = Inr None"
  by (simp add: extract_text_content_def get_text_def parse_trade_def split_def then_do_def
      refusing_parser_def surrogate_def strip_def lstrip_def rstrip_def isspace_def)

section \<open>The trade-block parser\<close>

lemma str_partition_here:
  assumes "startswith pat s" and "s \<noteq> []"
  shows "str_partition pat s = Some ([], drop (length pat) s)"
  using assms by (cases s) auto

lemma str_partition_next:
  assumes "\<not> startswith pat (c # cs)"
  shows "str_partition pat (c # cs) = map_option (\<lambda>(b, a). (c # b, a)) (str_partition pat cs)"
  using assms by simp

lemma startswith_nth:
  assumes "startswith p s" and "i < length p"
  shows "s ! i = p ! i"
proof -
  from assms(1) obtain b where "s = p @ b" using startswith_iff by blast
  then show ?thesis using assms(2) by (simp add: nth_append)
qed

lemma startswith_length: "startswith p s \<Longrightarrow> length p \<le> length s"
  using startswith_iff [of p s] by auto

lemma no_label_inside:
  assumes "t \<notin> set u" and "length l < length u"
  shows "\<not> startswith (l @ [t]) (u @ v)"
proof
  assume "startswith (l @ [t]) (u @ v)"
  then have "(u @ v) ! length l = (l @ [t]) ! length l"
    by (rule startswith_nth) simp
  then have "u ! length l = t" using assms(2) by (simp add: nth_append)
  then have "t \<in> set u" using assms(2) nth_mem by blast
  with assms(1) show False by simp
qed

lemma str_partition_hit:
  assumes "t \<notin> set c" and "t \<notin> set l"
  shows "str_partition (l @ [t]) (c @ l @ t # rest) = Some (c, rest)"
  using assms(1)
proof (induction c)
  case Nil
  have "startswith (l @ [t]) (l @ t # rest)" using startswith_iff by fastforce
  then have "str_partition (l @ [t]) (l @ t # rest)
               = Some ([], drop (length (l @ [t])) (l @ t # rest))"
    by (rule str_partition_here) simp
  then show ?case by simp
next
  case (Cons x c)
  have "t \<notin> set ((x # c) @ l)" using Cons.prems assms(2) by simp
  moreover have "length l < length ((x # c) @ l)" by simp
  ultimately have "\<not> startswith (l @ [t]) (((x # c) @ l) @ t # rest)"
    by (rule no_label_inside)
  then have "\<not> startswith (l @ [t]) (x # c @ l @ t # rest)" by simp
  then have "str_partition (l @ [t]) (x # c @ l @ t # rest)
       = map_option (\<lambda>(b, a). (x # b, a)) (str_partition (l @ [t]) (c @ l @ t # rest))"
    by (rule str_partition_next)
  then show ?case using Cons by simp
qed

lemma no_label_across:
  assumes "t \<notin> set u" and "t \<notin> set l" and "\<not> (\<exists>x. u = x @ l)" and "u \<noteq> []"
  shows "\<not> startswith (l @ [t]) (u @ t # v)"
proof
  assume s: "startswith (l @ [t]) (u @ t # v)"
  consider "length l < length u" | "length l = length u" | "length u < length l"
    by linarith
  then show False
  proof cases
    case 1
    with assms(1) have "\<not> startswith (l @ [t]) (u @ (t # v))" by (rule no_label_inside)
    with s show False by simp
  next
    case 2
    from s obtain b where "u @ t # v = (l @ [t]) @ b" using startswith_iff by blast
    then have "u = l" using 2 by simp
    then have "u = [] @ l" by simp
    with assms(3) show False by blast
  next
    case 3
    from s have "(u @ t # v) ! length u = (l @ [t]) ! length u"
      by (rule startswith_nth) (use 3 in simp)
    then have "t = l ! length u" using 3 by (simp add: nth_append)
    then have "t \<in> set l" using 3 nth_mem by metis
    with assms(2) show False by simp
  qed
qed

lemma str_partition_skip:
  assumes "t \<notin> set l" and "l \<noteq> []"
  shows "t \<notin> set u \<Longrightarrow> \<not> (\<exists>x. u = x @ l) \<Longrightarrow>
         str_partition (l @ [t]) (u @ t # v)
           = map_option (\<lambda>(b, a). (u @ t # b, a)) (str_partition (l @ [t]) v)"
proof (induction u)
  case Nil
  from assms obtain y l' where l: "l = y # l'" and "y \<noteq> t" by (cases l) auto
  then have "\<not> startswith (l @ [t]) (t # v)" by auto
  then show ?case by simp
next
  case (Cons a u)
  have n: "\<not> startswith (l @ [t]) ((a # u) @ t # v)"
    using Cons.prems assms(1) by (intro no_label_across) auto
  have "\<not> (\<exists>x. u = x @ l)"
  proof
    assume "\<exists>x. u = x @ l"
    then obtain x where "u = x @ l" by blast
    then have "a # u = (a # x) @ l" by simp
    with Cons.prems(2) show False by blast
  qed
  then have "str_partition (l @ [t]) (u @ t # v)
           = map_option (\<lambda>(b, a). (u @ t # b, a)) (str_partition (l @ [t]) v)"
    using Cons.prems(1) by (intro Cons.IH) auto
  then show ?case using n by (cases "str_partition (l @ [t]) v") auto
qed

lemma startswith_append_cases:
  "startswith p (a @ b) \<Longrightarrow> startswith p a \<or> startswith a p"
  by (induction p a rule: startswith.induct) auto

lemma unrelated_no_suffix:
  assumes "unrelated lab l"
  shows "\<not> (\<exists>x. c @ lab = x @ l)"
proof
  assume "\<exists>x. c @ lab = x @ l"
  then obtain x where "c @ lab = x @ l" by blast
  then have "rev lab @ rev c = rev l @ rev x" by (metis rev_append)
  then have "startswith (rev l) (rev lab @ rev c)" using startswith_iff by blast
  then have "startswith (rev l) (rev lab) \<or> startswith (rev lab) (rev l)"
    by (rule startswith_append_cases)
  with assms show False by (auto simp: unrelated_def)
qed

lemma str_partition_labelled:
  assumes "\<forall>(c', lab') \<in> set before. CHR '':'' \<notin> set c' \<and> CHR '':'' \<notin> set lab' \<and> unrelated lab' l"
    and "CHR '':'' \<notin> set c" and "CHR '':'' \<notin> set l" and "l \<noteq> []"
  shows "\<exists>b. str_partition (l @ '':'') (labelled (before @ (c, l) # after) tail)
               = Some (b, labelled after tail)"
  using assms(1)
proof (induction before)
  case Nil
  have "str_partition (l @ [CHR '':'']) (c @ l @ CHR '':'' # labelled after tail)
          = Some (c, labelled after tail)"
    using assms(2,3) by (rule str_partition_hit)
  then show ?case by simp
next
  case (Cons p before)
  obtain c' lab' where p: "p = (c', lab')" by (cases p)
  from Cons.prems p have c': "CHR '':'' \<notin> set c'" and lab': "CHR '':'' \<notin> set lab'"
    and u: "unrelated lab' l" by auto
  from Cons.prems have "\<forall>(c', lab') \<in> set before.
      CHR '':'' \<notin> set c' \<and> CHR '':'' \<notin> set lab' \<and> unrelated lab' l" by simp
  then obtain b where b: "str_partition (l @ '':'') (labelled (before @ (c, l) # after) tail)
               = Some (b, labelled after tail)"
    using Cons.IH by blast
  have "str_partition (l @ [CHR '':''])
          ((c' @ lab') @ CHR '':'' # labelled (before @ (c, l) # after) tail)
        = map_option (\<lambda>(b, a). ((c' @ lab') @ CHR '':'' # b, a))
            (str_partition (l @ [CHR '':'']) (labelled (before @ (c, l) # after) tail))"
    using assms(3,4) c' lab' unrelated_no_suffix [OF u, of c']
    by (intro str_partition_skip) auto
  then show ?case using b p by simp
qed

lemma search_between_labelled:
  assumes "\<forall>(c', lab') \<in> set before. CHR '':'' \<notin> set c' \<and> CHR '':'' \<notin> set lab' \<and> unrelated lab' l"
    and "CHR '':'' \<notin> set c" and "CHR '':'' \<notin> set l" and "l \<noteq> []"
    and "CHR '':'' \<notin> set g" and "CHR '':'' \<notin> set n"
  shows "search_between (l @ '':'') (n @ '':'') (labelled (before @ (c, l) # (g, n) # after) tail)
           = Some g"
proof -
  obtain b where "str_partition (l @ '':'') (labelled (before @ (c, l) # (g, n) # after) tail)
               = Some (b, labelled ((g, n) # after) tail)"
    using str_partition_labelled [OF assms(1-4)] by blast
  moreover have "str_partition (n @ [CHR '':'']) (g @ n @ CHR '':'' # labelled after tail)
          = Some (g, labelled after tail)"
    using assms(5,6) by (rule str_partition_hit)
  ultimately show ?thesis by (simp add: search_between_def)
qed

lemma split_players_cur:
  "split_players cur s = (cur @ hd (split_players [] s)) # tl (split_players [] s)"
proof (induction s arbitrary: cur)
  case Nil
  then show ?case by simp
next
  case (Cons c cs)
  show ?case
    using Cons.IH [of "cur @ [c]"] Cons.IH [of "[c]"] by simp
qed

lemma lstrip_space_append: "list_all isspace ws \<Longrightarrow> lstrip (ws @ x) = lstrip x"
  by (simp add: lstrip_def dropWhile_append list_all_iff)

lemma strip_space_append: "list_all isspace ws \<Longrightarrow> strip (ws @ x) = strip x"
  by (simp add: strip_def lstrip_space_append)

lemma strip_all_space: "list_all isspace ws \<Longrightarrow> strip ws = []"
  using strip_space_append [of ws "[]"] by (simp add: strip_def lstrip_def)

lemma names_from_space_cur:
  assumes "list_all isspace ws"
  shows "names_from (ws @ cur) s = names_from cur s"
proof -
  have a: "split_players (ws @ cur) s
             = (ws @ cur @ hd (split_players [] s)) # tl (split_players [] s)"
    using split_players_cur [of "ws @ cur" s] by simp
  have b: "split_players cur s = (cur @ hd (split_players [] s)) # tl (split_players [] s)"
    by (rule split_players_cur)
  have c: "strip (ws @ cur @ hd (split_players [] s)) = strip (cur @ hd (split_players [] s))"
    using assms by (rule strip_space_append)
  show ?thesis unfolding names_from_def a b using c by simp
qed

lemma name_ok_last: "name_ok p \<Longrightarrow> p \<noteq> [] \<and> \<not> isspace (last p)"
  by (induction p rule: name_ok.induct) auto

lemma split_players_keep:
  "c \<noteq> NL \<Longrightarrow> \<not> (isspace c \<and> cs \<noteq> [] \<and> isspace (hd cs))
     \<Longrightarrow> split_players cur (c # cs) = split_players (cur @ [c]) cs"
  by auto

lemma split_players_name:
  "name_ok p \<Longrightarrow> split_players cur (p @ rest) = split_players (cur @ p) rest"
proof (induction p arbitrary: cur rule: name_ok.induct)
  case 1
  then show ?case by simp
next
  case (2 c)
  then have "\<not> isspace c" by simp
  moreover from this have "c \<noteq> NL" by auto
  ultimately show ?case by simp
next
  case (3 c d cs)
  then have c: "c \<noteq> NL" "\<not> (isspace c \<and> isspace d)" and n: "name_ok (d # cs)" by simp_all
  have "split_players cur (c # (d # cs @ rest)) = split_players (cur @ [c]) (d # cs @ rest)"
    using c by (intro split_players_keep) auto
  also have "\<dots> = split_players ((cur @ [c]) @ d # cs) rest"
    using "3.IH" [OF n, of "cur @ [c]"] by simp
  finally show ?case by simp
qed

lemma dropWhile_append_stop:
  assumes "ys = [] \<or> \<not> P (hd ys)"
  shows "dropWhile P (xs @ ys) = dropWhile P xs @ ys"
proof (cases "\<forall>x \<in> set xs. P x")
  case True
  then have "dropWhile P xs = []" by simp
  moreover have "dropWhile P ys = ys" using assms by (cases ys) auto
  ultimately show ?thesis using True by (simp add: dropWhile_append)
next
  case False
  then show ?thesis by (auto simp: dropWhile_append)
qed

lemma names_from_space:
  assumes "rest = [] \<or> \<not> isspace (hd rest)"
  shows "list_all isspace s \<Longrightarrow> list_all isspace cur
           \<Longrightarrow> names_from cur (s @ rest) = names_from [] rest"
proof (induction "length s" arbitrary: s cur rule: less_induct)
  case less
  show ?case
  proof (cases s)
    case Nil
    then show ?thesis using names_from_space_cur [OF less.prems(2), of "[]" rest] by simp
  next
    case (Cons c cs)
    have cs: "list_all isspace cs" and c: "isspace c" using less.prems(1) Cons by simp_all
    have sc: "strip cur = []" using less.prems(2) by (rule strip_all_space)
    consider (nl) "c = NL"
      | (two) "c \<noteq> NL" "cs @ rest \<noteq> []" "isspace (hd (cs @ rest))"
      | (one) "c \<noteq> NL" "cs @ rest = [] \<or> \<not> isspace (hd (cs @ rest))"
      by blast
    then show ?thesis
    proof cases
      case nl
      have r: "rest = [] \<or> \<not> (\<lambda>x. x = NL) (hd rest)" using assms by auto
      have d: "dropWhile (\<lambda>x. x = NL) (cs @ rest) = dropWhile (\<lambda>x. x = NL) cs @ rest"
        using r by (rule dropWhile_append_stop)
      have l: "length (dropWhile (\<lambda>x. x = NL) cs) < length s"
        using Cons length_dropWhile_le [of "\<lambda>x. x = NL" cs] by simp
      have a: "list_all isspace (dropWhile (\<lambda>x. x = NL) cs)"
        using cs by (simp add: list_all_iff) (meson set_dropWhileD)
      have "names_from [] (dropWhile (\<lambda>x. x = NL) cs @ rest) = names_from [] rest"
        using l a by (intro less.hyps) auto
      then show ?thesis using nl Cons sc d by (simp add: names_from_def)
    next
      case two
      have "dropWhile isspace (cs @ rest) = dropWhile isspace cs @ rest"
        using assms by (rule dropWhile_append_stop)
      moreover have "dropWhile isspace cs = []" using cs by (simp add: list_all_iff)
      ultimately have "dropWhile isspace (cs @ rest) = rest" by simp
      then show ?thesis using two Cons sc c by (simp add: names_from_def)
    next
      case one
      have "split_players cur (s @ rest) = split_players (cur @ [c]) (cs @ rest)"
        using one Cons by auto
      then have "names_from cur (s @ rest) = names_from (cur @ [c]) (cs @ rest)"
        by (simp add: names_from_def)
      also have "\<dots> = names_from [] rest"
        using cs c less.prems(2) Cons by (intro less.hyps) auto
      finally show ?thesis .
    qed
  qed
qed

lemma names_from_sep:
  assumes "is_sep s" and "rest = [] \<or> \<not> isspace (hd rest)"
  shows "names_from cur (s @ rest)
           = (if strip cur = [] then [] else [strip cur]) @ names_from [] rest"
proof (cases s)
  case Nil
  with assms(1) show ?thesis by (simp add: is_sep_def)
next
  case (Cons c cs)
  have cs: "list_all isspace cs" and c: "isspace c" using assms(1) Cons by (simp_all add: is_sep_def)
  consider (nl) "c = NL"
    | (two) "c \<noteq> NL" "cs @ rest \<noteq> []" "isspace (hd (cs @ rest))"
    | (one) "c \<noteq> NL" "cs @ rest = [] \<or> \<not> isspace (hd (cs @ rest))"
    by blast
  then show ?thesis
  proof cases
    case nl
    have r: "rest = [] \<or> \<not> (\<lambda>x. x = NL) (hd rest)" using assms(2) by auto
    have d: "dropWhile (\<lambda>x. x = NL) (cs @ rest) = dropWhile (\<lambda>x. x = NL) cs @ rest"
      using r by (rule dropWhile_append_stop)
    have a: "list_all isspace (dropWhile (\<lambda>x. x = NL) cs)"
      using cs by (simp add: list_all_iff) (meson set_dropWhileD)
    have "names_from [] (dropWhile (\<lambda>x. x = NL) cs @ rest) = names_from [] rest"
      using a by (intro names_from_space [OF assms(2)]) auto
    then show ?thesis using nl Cons d by (simp add: names_from_def)
  next
    case two
    have "dropWhile isspace (cs @ rest) = dropWhile isspace cs @ rest"
      using assms(2) by (rule dropWhile_append_stop)
    moreover have "dropWhile isspace cs = []" using cs by (simp add: list_all_iff)
    ultimately have "dropWhile isspace (cs @ rest) = rest" by simp
    then show ?thesis using two Cons c by (simp add: names_from_def)
  next
    case one
    have "cs = []"
    proof (rule ccontr)
      assume "cs \<noteq> []"
      then have "cs @ rest \<noteq> []" "hd (cs @ rest) = hd cs" by simp_all
      moreover have "isspace (hd cs)" using cs \<open>cs \<noteq> []\<close> by (cases cs) auto
      ultimately show False using one by auto
    qed
    then have "s = [c]" using Cons by simp
    with assms(1) one show ?thesis by (simp add: is_sep_def)
  qed
qed

lemma strip_id:
  assumes "p \<noteq> []" and "\<not> isspace (hd p)" and "\<not> isspace (last p)"
  shows "strip p = p"
proof -
  have "lstrip p = p" using assms(1,2) by (cases p) (auto simp: lstrip_def)
  moreover have "rstrip p = p" using assms(1,3) by (rule rstrip_last_nonspace)
  ultimately show ?thesis by (simp add: strip_def)
qed

lemma strip_name: "is_name p \<Longrightarrow> strip p = p"
  using name_ok_last [of p] by (auto simp: is_name_def intro: strip_id)

lemma players_text_hd:
  "is_name p \<Longrightarrow> players_text p rest \<noteq> [] \<and> hd (players_text p rest) = hd p"
  using name_ok_last [of p] by (cases rest) (auto simp: is_name_def)

lemma players_text_last:
  "is_name p \<Longrightarrow> list_all (\<lambda>(s, q). is_sep s \<and> is_name q) rest
     \<Longrightarrow> \<not> isspace (last (players_text p rest))"
proof (induction rest arbitrary: p)
  case Nil
  then show ?case using name_ok_last [of p] by (simp add: is_name_def)
next
  case (Cons a rest)
  obtain s q where a: "a = (s, q)" by (cases a)
  with Cons.prems have q: "is_name q" and r: "list_all (\<lambda>(s, q). is_sep s \<and> is_name q) rest"
    by simp_all
  have "players_text q rest \<noteq> []" using players_text_hd [OF q] by simp
  then have "last (players_text p (a # rest)) = last (players_text q rest)"
    using a by simp
  then show ?case using Cons.IH [OF q r] by simp
qed

lemma names_from_players_text:
  "is_name p \<Longrightarrow> list_all (\<lambda>(s, q). is_sep s \<and> is_name q) rest
     \<Longrightarrow> names_from [] (players_text p rest) = p # map snd rest"
proof (induction rest arbitrary: p)
  case Nil
  have "split_players [] (p @ []) = split_players ([] @ p) []"
    using Nil.prems(1) by (intro split_players_name) (simp add: is_name_def)
  then have "split_players [] p = [p]" by simp
  moreover have "p \<noteq> []" using Nil.prems(1) name_ok_last [of p] by (simp add: is_name_def)
  ultimately show ?case using strip_name [OF Nil.prems(1)] by (simp add: names_from_def)
next
  case (Cons a rest)
  obtain s q where a: "a = (s, q)" by (cases a)
  with Cons.prems have s: "is_sep s" and q: "is_name q"
    and r: "list_all (\<lambda>(s, q). is_sep s \<and> is_name q) rest"
    by simp_all
  let ?Y = "players_text q rest"
  have y: "?Y = [] \<or> \<not> isspace (hd ?Y)"
    using players_text_hd [OF q, of rest] q by (simp add: is_name_def)
  have pn: "p \<noteq> []" using Cons.prems(1) name_ok_last [of p] by (simp add: is_name_def)
  have "split_players [] (p @ (s @ ?Y)) = split_players ([] @ p) (s @ ?Y)"
    using Cons.prems(1) by (intro split_players_name) (simp add: is_name_def)
  then have "names_from [] (players_text p (a # rest)) = names_from p (s @ ?Y)"
    using a by (simp add: names_from_def)
  also have "\<dots> = (if strip p = [] then [] else [strip p]) @ names_from [] ?Y"
    using s y by (rule names_from_sep)
  also have "\<dots> = p # names_from [] ?Y"
    using strip_name [OF Cons.prems(1)] pn by simp
  finally show ?case using Cons.IH [OF q r] a by simp
qed

lemma strip_players_raw:
  assumes "is_name p" and "list_all (\<lambda>(s, q). is_sep s \<and> is_name q) rest"
    and "list_all isspace w0" and "list_all isspace w1"
  shows "strip (w0 @ players_text p rest @ w1) = players_text p rest"
proof -
  let ?X = "players_text p rest"
  have x: "?X \<noteq> []" "\<not> isspace (hd ?X)"
    using players_text_hd [OF assms(1), of rest] assms(1) by (simp_all add: is_name_def)
  have l: "\<not> isspace (last ?X)" using assms(1,2) by (rule players_text_last)
  have "lstrip (w0 @ ?X @ w1) = lstrip (?X @ w1)"
    using assms(3) by (rule lstrip_space_append)
  also have "\<dots> = ?X @ w1" using x by (cases ?X) (auto simp: lstrip_def)
  finally have "strip (w0 @ ?X @ w1) = rstrip (?X @ w1)" by (simp add: strip_def)
  also have "\<dots> = rstrip ?X" using assms(4) by (rule rstrip_append_space)
  also have "\<dots> = ?X" using x(1) l by (rule rstrip_last_nonspace)
  finally show ?thesis .
qed

lemma search_team_line:
  "search_team (TEAM_LINE @ rest) = Some ''The Don Orsillo Open - Grand Salamis''"
  by (simp add: TEAM_LINE_def dot_plus_lazy_until_def)

lemma search_team_pre:
  "CHR ''-'' \<notin> set pre \<Longrightarrow>
     search_team (pre @ TEAM_LINE @ rest) = Some ''The Don Orsillo Open - Grand Salamis''"
proof (induction pre)
  case Nil
  then show ?case by (simp add: search_team_line)
next
  case (Cons c pre)
  then have "c \<noteq> CHR ''-''" by auto
  then have "\<not> startswith ''- '' (c # pre @ TEAM_LINE @ rest)" by simp
  then show ?case using Cons by simp
qed

lemma team_name_of_match:
  "(if contains '' - '' (strip ''The Don Orsillo Open - Grand Salamis'')
    then then_do (py_last (rsplit1 '' - '' (strip ''The Don Orsillo Open - Grand Salamis'')))
           (\<lambda>x. Inr (strip x))
    else Inr (strip ''The Don Orsillo Open - Grand Salamis'')) = Inr ''Grand Salamis''"
  by (simp add: strip_def lstrip_def rstrip_def isspace_def rsplit1_def py_last_def then_do_def)

lemma lazy_until_space:
  assumes "stop tail"
  shows "list_all isspace cm \<Longrightarrow> \<exists>g. lazy_until stop (cm @ tail) = Some g \<and> list_all isspace g"
proof (induction cm)
  case Nil
  then show ?case using assms by (cases tail) auto
next
  case (Cons c cm)
  then obtain g where "lazy_until stop (cm @ tail) = Some g" "list_all isspace g" by auto
  then show ?case using Cons.prems by auto
qed

lemma then_do_Inr: "then_do (Inr v) f = f v"
  by (simp add: then_do_def)

lemma group1_Some: "group1 (Some g) = Inr g"
  by (simp add: group1_def)

lemma space_no_colon: "list_all isspace w \<Longrightarrow> CHR '':'' \<notin> set w"
  by (auto simp: list_all_iff isspace_def)

lemma extract_section_labelled:
  assumes "\<forall>(c', lab') \<in> set before. CHR '':'' \<notin> set c' \<and> CHR '':'' \<notin> set lab' \<and> unrelated lab' l"
    and "CHR '':'' \<notin> set c" and "CHR '':'' \<notin> set l" and "l \<noteq> []"
    and "CHR '':'' \<notin> set g" and "CHR '':'' \<notin> set n"
  shows "extract_section (labelled (before @ (c, l) # (g, n) # after) tail) l n = Inr (strip g)"
  using search_between_labelled [OF assms]
  by (simp add: extract_section_def then_do_Inr group1_Some del: labelled.simps)

lemma trade_block_text_labelled:
  "trade_block_text pre mid players (po, so, pn, sn, cm) tail
     = labelled [(pre @ TEAM_LINE @ mid, ''Players Offered''), (players, ''Positions Offered''),
                 (po, ''Stats Offered''), (so, ''Positions Needed''), (pn, ''Stats Needed''),
                 (sn, ''Comment'')] (cm @ tail)"
  by simp

lemma parse_trade_block_family:
  assumes pre: "CHR ''-'' \<notin> set pre" "CHR '':'' \<notin> set pre" and mid: "CHR '':'' \<notin> set mid"
    and names: "is_name p" "list_all (\<lambda>(s, q). is_sep s \<and> is_name q) rest"
    and colon: "CHR '':'' \<notin> set (players_text p rest)"
    and w: "list_all isspace w0" "list_all isspace w1"
    and blank: "list_all isspace po" "list_all isspace so" "list_all isspace pn"
      "list_all isspace sn" "list_all isspace cm"
    and tail: "tail = [] \<or> startswith ''Note that'' tail"
  shows "parse_trade_block
           (trade_block_text pre mid (w0 @ players_text p rest @ w1) (po, so, pn, sn, cm) tail)
         = Inr (Some \<lparr>team = ''Grand Salamis'',
                      players_offered = p # map snd rest,
                      positions_offered = ''(None specified)'',
                      stats_offered = ''(None specified)'',
                      positions_needed = ''(None specified)'',
                      stats_needed = ''(None specified)'',
                      comment = []\<rparr>)"
proof -
  let ?raw = "w0 @ players_text p rest @ w1"
  let ?c0 = "pre @ TEAM_LINE @ mid"
  define T where "T = trade_block_text pre mid ?raw (po, so, pn, sn, cm) tail"
  have T: "T = labelled [(?c0, ''Players Offered''), (?raw, ''Positions Offered''),
                 (po, ''Stats Offered''), (so, ''Positions Needed''), (pn, ''Stats Needed''),
                 (sn, ''Comment'')] (cm @ tail)"
    unfolding T_def by (rule trade_block_text_labelled)
  have c0: "CHR '':'' \<notin> set ?c0" using pre(2) mid by (simp add: TEAM_LINE_def)
  have raw: "CHR '':'' \<notin> set ?raw" using colon w space_no_colon by simp
  note sp = space_no_colon [OF blank(1)] space_no_colon [OF blank(2)]
    space_no_colon [OF blank(3)] space_no_colon [OF blank(4)]
  have team: "search_team T = Some ''The Don Orsillo Open - Grand Salamis''"
    unfolding T_def trade_block_text.simps using pre(1) by (rule search_team_pre)
  have "extract_section (labelled ([] @ (?c0, ''Players Offered'') # (?raw, ''Positions Offered'')
          # [(po, ''Stats Offered''), (so, ''Positions Needed''), (pn, ''Stats Needed''),
             (sn, ''Comment'')]) (cm @ tail)) ''Players Offered'' ''Positions Offered''
        = Inr (strip ?raw)"
    using c0 raw by (intro extract_section_labelled) simp_all
  then have e1: "extract_section T ''Players Offered'' ''Positions Offered''
                   = Inr (players_text p rest)"
    using strip_players_raw [OF names w] by (simp add: T del: labelled.simps)
  have "extract_section (labelled ([(?c0, ''Players Offered'')] @ (?raw, ''Positions Offered'')
          # (po, ''Stats Offered'')
          # [(so, ''Positions Needed''), (pn, ''Stats Needed''), (sn, ''Comment'')]) (cm @ tail))
          ''Positions Offered'' ''Stats Offered'' = Inr (strip po)"
    using c0 raw sp by (intro extract_section_labelled) (simp_all add: unrelated_def)
  then have e2: "extract_section T ''Positions Offered'' ''Stats Offered'' = Inr []"
    using strip_all_space [OF blank(1)] by (simp add: T del: labelled.simps)
  have "extract_section (labelled ([(?c0, ''Players Offered''), (?raw, ''Positions Offered'')]
          @ (po, ''Stats Offered'') # (so, ''Positions Needed'')
          # [(pn, ''Stats Needed''), (sn, ''Comment'')]) (cm @ tail))
          ''Stats Offered'' ''Positions Needed'' = Inr (strip so)"
    using c0 raw sp by (intro extract_section_labelled) (simp_all add: unrelated_def)
  then have e3: "extract_section T ''Stats Offered'' ''Positions Needed'' = Inr []"
    using strip_all_space [OF blank(2)] by (simp add: T del: labelled.simps)
  have "extract_section (labelled ([(?c0, ''Players Offered''), (?raw, ''Positions Offered''),
          (po, ''Stats Offered'')] @ (so, ''Positions Needed'') # (pn, ''Stats Needed'')
          # [(sn, ''Comment'')]) (cm @ tail))
          ''Positions Needed'' ''Stats Needed'' = Inr (strip pn)"
    using c0 raw sp by (intro extract_section_labelled) (simp_all add: unrelated_def)
  then have e4: "extract_section T ''Positions Needed'' ''Stats Needed'' = Inr []"
    using strip_all_space [OF blank(3)] by (simp add: T del: labelled.simps)
  have "search_between (''Stats Needed'' @ '':'') (''Comment'' @ '':'')
          (labelled ([(?c0, ''Players Offered''), (?raw, ''Positions Offered''),
          (po, ''Stats Offered''), (so, ''Positions Needed'')] @ (pn, ''Stats Needed'')
          # (sn, ''Comment'') # []) (cm @ tail)) = Some sn"
    using c0 raw sp by (intro search_between_labelled) (simp_all add: unrelated_def)
  then have e5: "search_between ''Stats Needed:'' ''Comment:'' T = Some sn"
    by (simp add: T del: labelled.simps)
  have "\<exists>b. str_partition (''Comment'' @ '':'')
          (labelled ([(?c0, ''Players Offered''), (?raw, ''Positions Offered''),
          (po, ''Stats Offered''), (so, ''Positions Needed''), (pn, ''Stats Needed'')]
          @ (sn, ''Comment'') # []) (cm @ tail)) = Some (b, labelled [] (cm @ tail))"
    using c0 raw sp by (intro str_partition_labelled) (simp_all add: unrelated_def)
  then obtain b where b: "str_partition ''Comment:'' T = Some (b, cm @ tail)"
    by (auto simp: T simp del: labelled.simps(2))
  have "startswith ''Note that'' tail \<or> at_end tail" using tail by (auto simp: at_end_def)
  then obtain g where g: "lazy_until (\<lambda>r. startswith ''Note that'' r \<or> at_end r) (cm @ tail) = Some g"
    and gs: "list_all isspace g"
    using lazy_until_space [of "\<lambda>r. startswith ''Note that'' r \<or> at_end r" tail cm] blank(5)
    by blast
  have e6: "search_comment T = Some g" using b g by (simp add: search_comment_def)
  have n: "map strip (filter (\<lambda>p. strip p \<noteq> []) (split_players [] (players_text p rest)))
             = p # map snd rest"
    using names_from_players_text [OF names] by (simp add: names_from_def)
  have "parse_trade_block T
         = Inr (Some \<lparr>team = ''Grand Salamis'',
                      players_offered = p # map snd rest,
                      positions_offered = ''(None specified)'',
                      stats_offered = ''(None specified)'',
                      positions_needed = ''(None specified)'',
                      stats_needed = ''(None specified)'',
                      comment = []\<rparr>)"
    unfolding parse_trade_block_def Let_def team e1 e2 e3 e4 e5 e6
    by (simp add: group1_Some then_do_Inr team_name_of_match n or_else_def
        strip_all_space [OF blank(4)] strip_all_space [OF gs])
  then show ?thesis by (simp only: T_def)
qed

lemma str_partition_Some:
  "str_partition pat s = Some (b, a) \<Longrightarrow> s = b @ pat @ a"
proof (induction s arbitrary: b)
  case Nil
  then show ?case by (simp split: if_splits)
next
  case (Cons c cs)
  show ?case
  proof (cases "startswith pat (c # cs)")
    case True
    then obtain x where x: "c # cs = pat @ x" using startswith_iff by blast
    from True Cons.prems have "b = []" "a = drop (length pat) (c # cs)" by simp_all
    then show ?thesis by (simp only: x) simp
  next
    case False
    then obtain b' where "str_partition pat cs = Some (b', a)" "b = c # b'"
      using Cons.prems by auto
    then show ?thesis using Cons.IH by simp
  qed
qed

lemma str_partition_occurs: "str_partition pat s = Some x \<Longrightarrow> occurs_in pat s"
  using str_partition_Some [of pat s "fst x" "snd x"] by (auto simp: occurs_in_def)

lemma search_between_occurs:
  assumes "search_between l n s = Some g"
  shows "occurs_in l s \<and> occurs_in n s"
proof -
  from assms obtain b rest a where 1: "str_partition l s = Some (b, rest)"
    and 2: "str_partition n rest = Some (g, a)"
    by (auto simp: search_between_def split: option.splits)
  from 1 have s: "s = b @ l @ rest" by (rule str_partition_Some)
  from 2 have "rest = g @ n @ a" by (rule str_partition_Some)
  with s have "s = (b @ l @ g) @ n @ a" by simp
  then have "occurs_in n s" unfolding occurs_in_def by blast
  moreover have "occurs_in l s" using s unfolding occurs_in_def by blast
  ultimately show ?thesis by simp
qed

lemma search_comment_occurs: "search_comment s = Some g \<Longrightarrow> occurs_in ''Comment:'' s"
  by (auto simp: search_comment_def split: option.splits dest: str_partition_occurs)

lemma dot_lazy_until_stops:
  "dot_lazy_until stop s = Some g \<Longrightarrow> \<exists>r. s = g @ r \<and> stop r"
proof (induction s arbitrary: g)
  case Nil
  then show ?case by (simp split: if_splits)
next
  case (Cons c cs)
  show ?case
  proof (cases "stop (c # cs)")
    case True
    then show ?thesis using Cons.prems by auto
  next
    case False
    then obtain g' where "dot_lazy_until stop cs = Some g'" "g = c # g'"
      using Cons.prems by (auto split: if_splits)
    then show ?thesis using Cons.IH by auto
  qed
qed

lemma occurs_in_Cons: "occurs_in p s \<Longrightarrow> occurs_in p (c # s)"
  unfolding occurs_in_def by (metis append_Cons)

lemma occurs_in_append: "occurs_in p s \<Longrightarrow> occurs_in p (u @ s)"
  by (induction u) (auto intro: occurs_in_Cons)

lemma search_team_occurs:
  "search_team s = Some g \<Longrightarrow> occurs_in '' has made changes to the Trade Block'' s"
proof (induction s)
  case Nil
  then show ?case by simp
next
  case (Cons c cs)
  let ?stop = "startswith '' has made changes to the Trade Block''"
  show ?case
  proof (cases "startswith ''- '' (c # cs)
                \<and> dot_plus_lazy_until ?stop (drop 2 (c # cs)) \<noteq> None")
    case True
    then obtain h where h: "dot_plus_lazy_until ?stop (drop 2 (c # cs)) = Some h" by auto
    then obtain x xs h' where d: "drop 2 (c # cs) = x # xs" and "dot_lazy_until ?stop xs = Some h'"
      by (auto simp: dot_plus_lazy_until_def split: list.splits if_splits)
    then obtain r where "xs = h' @ r" "?stop r" using dot_lazy_until_stops by blast
    then obtain r' where "xs = h' @ '' has made changes to the Trade Block'' @ r'"
      using startswith_iff by blast
    then have "occurs_in '' has made changes to the Trade Block'' xs"
      unfolding occurs_in_def by blast
    then have "occurs_in '' has made changes to the Trade Block'' (take 2 (c # cs) @ x # xs)"
      by (intro occurs_in_append occurs_in_Cons)
    then show ?thesis using d by (metis append_take_drop_id)
  next
    case False
    then have "search_team cs = Some g" using Cons.prems by (auto split: option.splits)
    then show ?thesis using Cons.IH by (intro occurs_in_Cons) simp
  qed
qed

lemma extract_section_eq:
  "extract_section text l n
     = Inr (case search_between (l @ '':'') (n @ '':'') text of Some g \<Rightarrow> strip g | None \<Rightarrow> [])"
  by (cases "search_between (l @ '':'') (n @ '':'') text")
     (simp_all add: extract_section_def then_do_Inr group1_Some)

lemma parse_trade_block_sections:
  assumes "parse_trade_block text = Inr (Some r)"
  shows "positions_offered r
           = or_else (case search_between ''Positions Offered:'' ''Stats Offered:'' text of
                        Some g \<Rightarrow> strip g | None \<Rightarrow> []) ''(None specified)''"
    and "stats_offered r
           = or_else (case search_between ''Stats Offered:'' ''Positions Needed:'' text of
                        Some g \<Rightarrow> strip g | None \<Rightarrow> []) ''(None specified)''"
    and "positions_needed r
           = or_else (case search_between ''Positions Needed:'' ''Stats Needed:'' text of
                        Some g \<Rightarrow> strip g | None \<Rightarrow> []) ''(None specified)''"
    and "stats_needed r
           = or_else (case search_between ''Stats Needed:'' ''Comment:'' text of
                        Some g \<Rightarrow> strip g | None \<Rightarrow> []) ''(None specified)''"
    and "comment r = (case search_comment text of Some g \<Rightarrow> strip g | None \<Rightarrow> [])"
proof -
  from assms obtain g where g: "search_team text = Some g"
    by (cases "search_team text") (auto simp: parse_trade_block_def)
  obtain x where x: "py_last (rsplit1 '' - '' (strip g)) = Inr x"
    using py_last_rsplit1 by blast
  define tn where "tn = (if contains '' - '' (strip g) then strip x else strip g)"
  have r: "r = \<lparr>team = tn,
      players_offered = map strip (filter (\<lambda>p. strip p \<noteq> []) (split_players []
         (case search_between ''Players Offered:'' ''Positions Offered:'' text of
            Some g \<Rightarrow> strip g | None \<Rightarrow> []))),
      positions_offered = or_else (case search_between ''Positions Offered:'' ''Stats Offered:'' text of
                        Some g \<Rightarrow> strip g | None \<Rightarrow> []) ''(None specified)'',
      stats_offered = or_else (case search_between ''Stats Offered:'' ''Positions Needed:'' text of
                        Some g \<Rightarrow> strip g | None \<Rightarrow> []) ''(None specified)'',
      positions_needed = or_else (case search_between ''Positions Needed:'' ''Stats Needed:'' text of
                        Some g \<Rightarrow> strip g | None \<Rightarrow> []) ''(None specified)'',
      stats_needed = or_else (case search_between ''Stats Needed:'' ''Comment:'' text of
                        Some g \<Rightarrow> strip g | None \<Rightarrow> []) ''(None specified)'',
      comment = (case search_comment text of Some g \<Rightarrow> strip g | None \<Rightarrow> [])\<rparr>"
    using assms unfolding parse_trade_block_def Let_def g extract_section_eq
    by (cases "search_between ''Stats Needed:'' ''Comment:'' text"; cases "search_comment text")
       (auto simp: then_do_Inr group1_Some x tn_def split: if_splits)
  show "positions_offered r
           = or_else (case search_between ''Positions Offered:'' ''Stats Offered:'' text of
                        Some g \<Rightarrow> strip g | None \<Rightarrow> []) ''(None specified)''"
    by (subst r) simp
  show "stats_offered r
           = or_else (case search_between ''Stats Offered:'' ''Positions Needed:'' text of
                        Some g \<Rightarrow> strip g | None \<Rightarrow> []) ''(None specified)''"
    by (subst r) simp
  show "positions_needed r
           = or_else (case search_between ''Positions Needed:'' ''Stats Needed:'' text of
                        Some g \<Rightarrow> strip g | None \<Rightarrow> []) ''(None specified)''"
    by (subst r) simp
  show "stats_needed r
           = or_else (case search_between ''Stats Needed:'' ''Comment:'' text of
                        Some g \<Rightarrow> strip g | None \<Rightarrow> []) ''(None specified)''"
    by (subst r) simp
  show "comment r = (case search_comment text of Some g \<Rightarrow> strip g | None \<Rightarrow> [])"
    by (subst r) simp
qed

lemma absent_section:
  assumes "\<not> occurs_in l text"
  shows "or_else (case search_between l n text of Some g \<Rightarrow> strip g | None \<Rightarrow> []) d = d"
proof (cases "search_between l n text")
  case None
  then show ?thesis by (simp add: or_else_def)
next
  case (Some g)
  then show ?thesis using search_between_occurs assms by blast
qed

lemma no_team_no_result:
  assumes "\<not> occurs_in '' has made changes to the Trade Block'' text"
  shows "parse_trade_block text = Inr None"
proof (cases "search_team text")
  case None
  then show ?thesis by (simp add: parse_trade_block_def)
next
  case (Some g)
  then show ?thesis using search_team_occurs assms by blast
qed

text \<open>
  C1, as the code has it.  For every text made of a team line for Grand Salamis with the
  league name in front, a players section listing names (six, or any other number) and
  blank sections after it, the parser returns the team Grand Salamis, exactly those names
  in their order, the sentinel "(None specified)" for positions_offered, stats_offered,
  positions_needed and stats_needed, and the empty string for the comment.  For every
  text, each of the four fields is the sentinel when its label is absent, and the comment
  is the empty string when its label is absent.  A text without the phrase of the team
  line gives no result.
\<close>

theorem parse_trade_block_spec:
  "(CHR ''-'' \<notin> set pre \<and> CHR '':'' \<notin> set pre \<and> CHR '':'' \<notin> set mid
      \<and> is_name p \<and> list_all (\<lambda>(s, q). is_sep s \<and> is_name q) rest
      \<and> CHR '':'' \<notin> set (players_text p rest)
      \<and> list_all isspace lead \<and> list_all isspace trail
      \<and> list_all isspace po \<and> list_all isspace so \<and> list_all isspace pn
      \<and> list_all isspace sn \<and> list_all isspace cm
      \<and> (tail = [] \<or> startswith ''Note that'' tail)
    \<longrightarrow> parse_trade_block
          (trade_block_text pre mid (lead @ players_text p rest @ trail) (po, so, pn, sn, cm) tail)
        = Inr (Some \<lparr>team = ''Grand Salamis'',
                     players_offered = p # map snd rest,
                     positions_offered = ''(None specified)'',
                     stats_offered = ''(None specified)'',
                     positions_needed = ''(None specified)'',
                     stats_needed = ''(None specified)'',
                     comment = []\<rparr>))
   \<and> (parse_trade_block body = Inr (Some r) \<longrightarrow>
        (\<not> occurs_in ''Positions Offered:'' body \<longrightarrow> positions_offered r = ''(None specified)'')
        \<and> (\<not> occurs_in ''Stats Offered:'' body \<longrightarrow> stats_offered r = ''(None specified)'')
        \<and> (\<not> occurs_in ''Positions Needed:'' body \<longrightarrow> positions_needed r = ''(None specified)'')
        \<and> (\<not> occurs_in ''Stats Needed:'' body \<longrightarrow> stats_needed r = ''(None specified)'')
        \<and> (\<not> occurs_in ''Comment:'' body \<longrightarrow> comment r = []))
   \<and> (\<not> occurs_in '' has made changes to the Trade Block'' body
        \<longrightarrow> parse_trade_block body = Inr None)"
proof (intro conjI impI)
  assume "CHR ''-'' \<notin> set pre \<and> CHR '':'' \<notin> set pre \<and> CHR '':'' \<notin> set mid
      \<and> is_name p \<and> list_all (\<lambda>(s, q). is_sep s \<and> is_name q) rest
      \<and> CHR '':'' \<notin> set (players_text p rest)
      \<and> list_all isspace lead \<and> list_all isspace trail
      \<and> list_all isspace po \<and> list_all isspace so \<and> list_all isspace pn
      \<and> list_all isspace sn \<and> list_all isspace cm
      \<and> (tail = [] \<or> startswith ''Note that'' tail)"
  then show "parse_trade_block
          (trade_block_text pre mid (lead @ players_text p rest @ trail) (po, so, pn, sn, cm) tail)
        = Inr (Some \<lparr>team = ''Grand Salamis'',
                     players_offered = p # map snd rest,
                     positions_offered = ''(None specified)'',
                     stats_offered = ''(None specified)'',
                     positions_needed = ''(None specified)'',
                     stats_needed = ''(None specified)'',
                     comment = []\<rparr>)"
    by (intro parse_trade_block_family) blast+
next
  assume r: "parse_trade_block body = Inr (Some r)"
  note f = parse_trade_block_sections [OF r]
  show "positions_offered r = ''(None specified)''" if "\<not> occurs_in ''Positions Offered:'' body"
    using f(1) absent_section [OF that] by simp
  show "stats_offered r = ''(None specified)''" if "\<not> occurs_in ''Stats Offered:'' body"
    using f(2) absent_section [OF that] by simp
  show "positions_needed r = ''(None specified)''" if "\<not> occurs_in ''Positions Needed:'' body"
    using f(3) absent_section [OF that] by simp
  show "stats_needed r = ''(None specified)''" if "\<not> occurs_in ''Stats Needed:'' body"
    using f(4) absent_section [OF that] by simp
  show "comment r = []" if "\<not> occurs_in ''Comment:'' body"
  proof (cases "search_comment body")
    case None
    then show ?thesis using f(5) by simp
  next
    case (Some g)
    then show ?thesis using search_comment_occurs that by blast
  qed
next
  assume "\<not> occurs_in '' has made changes to the Trade Block'' body"
  then show "parse_trade_block body = Inr None" by (rule no_team_no_result)
qed

text \<open>
  The comment of a trade-block email with a blank comment section is the empty string,
  not the sentinel.
\<close>

theorem parse_trade_block_counterexample:
  "parse_trade_block example_block_text
     = Inr (Some \<lparr>team = ''Grand Salamis'',
                  players_offered = [''Contreras, Willson'', ''Turner, Trea'', ''Smith, Cam'',
                                     ''Wallner, Matt'', ''Miller, Bryce'', ''Pfaadt, Brandon''],
                  positions_offered = ''(None specified)'',
                  stats_offered = ''(None specified)'',
                  positions_needed = ''(None specified)'',
                  stats_needed = ''(None specified)'',
                  comment = []\<rparr>)
   \<and> comment \<lparr>team = ''Grand Salamis'',
                  players_offered = [''Contreras, Willson'', ''Turner, Trea'', ''Smith, Cam'',
                                     ''Wallner, Matt'', ''Miller, Bryce'', ''Pfaadt, Brandon''],
                  positions_offered = ''(None specified)'',
                  stats_offered = ''(None specified)'',
                  positions_needed = ''(None specified)'',
                  stats_needed = ''(None specified)'',
                  comment = []\<rparr> \<noteq> ''(None specified)''"
  by code_simp

theorem parse_trade_block_spec_witness:
  "is_name ''Contreras, Willson''
   \<and> list_all (\<lambda>(s, q). is_sep s \<and> is_name q) example_names
   \<and> CHR '':'' \<notin> set (players_text ''Contreras, Willson'' example_names)
   \<and> startswith ''Note that'' ''Note that this is an automated message.''
   \<and> parse_trade_block example_block_text
       = Inr (Some \<lparr>team = ''Grand Salamis'',
                  players_offered = [''Contreras, Willson'', ''Turner, Trea'', ''Smith, Cam'',
                                     ''Wallner, Matt'', ''Miller, Bryce'', ''Pfaadt, Brandon''],
                  positions_offered = ''(None specified)'',
                  stats_offered = ''(None specified)'',
                  positions_needed = ''(None specified)'',
                  stats_needed = ''(None specified)'',
                  comment = []\<rparr>)
   \<and> \<not> occurs_in '' has made changes to the Trade Block'' ''Weekly newsletter''
   \<and> parse_trade_block ''Weekly newsletter'' = Inr None"
proof -
  have n: "is_name ''Contreras, Willson''"
    by (simp add: is_name_def isspace_def)
  have r: "list_all (\<lambda>(s, q). is_sep s \<and> is_name q) example_names"
    by (simp add: example_names_def is_sep_def is_name_def isspace_def)
  have c: "CHR '':'' \<notin> set (players_text ''Contreras, Willson'' example_names)"
    by (simp add: example_names_def)
  have t: "startswith ''Note that'' ''Note that this is an automated message.''" by simp
  have w: "list_all isspace ('' '' @ [NL] @ '' '')" "list_all isspace ('' '' @ [NL])"
    "list_all isspace '' ''"
    by (simp_all add: isspace_def)
  have h: "CHR ''-'' \<notin> set ''Fantrax ''" "CHR '':'' \<notin> set ''Fantrax ''"
    "CHR '':'' \<notin> set (''.'' @ [NL])"
    by simp_all
  have o: "\<not> occurs_in '' has made changes to the Trade Block'' ''Weekly newsletter''"
    unfolding contains_iff [symmetric] by simp
  note s = parse_trade_block_spec [where pre = "''Fantrax ''" and mid = "''.'' @ [NL]"
      and p = "''Contreras, Willson''" and rest = example_names
      and lead = "'' '' @ [NL] @ '' ''" and trail = "'' '' @ [NL]"
      and po = "'' ''" and so = "'' ''" and pn = "'' ''" and sn = "'' ''" and cm = "'' ''"
      and tail = "''Note that this is an automated message.''"
      and body = "''Weekly newsletter''"]
  have 0: "parse_trade_block
          (trade_block_text ''Fantrax '' (''.'' @ [NL])
            (('' '' @ [NL] @ '' '') @ players_text ''Contreras, Willson'' example_names
               @ '' '' @ [NL])
            ('' '', '' '', '' '', '' '', '' '') ''Note that this is an automated message.'')
       = Inr (Some \<lparr>team = ''Grand Salamis'',
                  players_offered = ''Contreras, Willson'' # map snd example_names,
                  positions_offered = ''(None specified)'',
                  stats_offered = ''(None specified)'',
                  positions_needed = ''(None specified)'',
                  stats_needed = ''(None specified)'',
                  comment = []\<rparr>)"
    using s n r c t w h by blast
  have 1: "parse_trade_block example_block_text
       = Inr (Some \<lparr>team = ''Grand Salamis'',
                  players_offered = ''Contreras, Willson'' # map snd example_names,
                  positions_offered = ''(None specified)'',
                  stats_offered = ''(None specified)'',
                  positions_needed = ''(None specified)'',
                  stats_needed = ''(None specified)'',
                  comment = []\<rparr>)"
    unfolding example_block_text_def using 0 by (simp only: append_assoc)
  have 2: "parse_trade_block ''Weekly newsletter'' = Inr None" using s o by blast
  have 3: "''Contreras, Willson'' # map snd example_names
            = [''Contreras, Willson'', ''Turner, Trea'', ''Smith, Cam'',
               ''Wallner, Matt'', ''Miller, Bryce'', ''Pfaadt, Brandon'']"
    by (simp add: example_names_def)
  from n r c t o 1 2 3 show ?thesis by simp
qed

end
